theory Spec2Isabelle
  imports Complex_Main
begin

section \<open>Data model of process_dataset.py\<close>

text \<open>
  The script matches the ground-truth boxes of every sample against a fixed list of
  anchors and writes, per sample, a target vector with one row per anchor: a one-hot
  class segment of \<open>num_classes + 1\<close> columns (the last one is the background) followed
  by four location offsets.

  Scores and vector entries are floating-point numbers in the script; they are modelled
  as rationals, on which \<open>\<ge>\<close> is the comparison of the source for every score that is
  not a NaN. Anchor indices come out of the overlap scorer as array positions and are
  natural numbers; a box's \<open>labelid\<close> is a Python integer and is used as a numpy column
  index, so it keeps the negative-index rule of numpy.
\<close>

datatype error = IndexError | KeyError | ValueError
  | ImportError | AttributeError | RuntimeError | OSError

record img_size =
  width :: nat
  height :: nat

record box =
  label :: string
  labelid :: int
  bcenter :: "rat \<times> rat"
  bsize :: "rat \<times> rat"

record anchor =
  acenter :: "rat \<times> rat"
  asize :: "rat \<times> rat"

record match_score =
  idx :: nat
  score :: rat

record overlap =
  best :: match_score
  good :: "match_score list"

record sample =
  filename :: string
  boxes :: "box list"
  imgsize :: img_size

type_synonym matches = "nat \<rightharpoonup> rat"
type_synonym vec = "rat list list"
type_synonym location = "rat \<times> rat \<times> rat \<times> rat"

text \<open>
  The functions imported from \<open>ssdutils\<close> are not part of the script. They are pure and
  enter the model as parameters, collected in one record.
\<close>

record ssdutils =
  anchors2array :: "anchor list \<Rightarrow> img_size \<Rightarrow> rat list list"
  box2array :: "box \<Rightarrow> img_size \<Rightarrow> rat list"
  compute_overlap :: "rat list \<Rightarrow> rat list list \<Rightarrow> rat \<Rightarrow> overlap"
  compute_location :: "box \<Rightarrow> anchor \<Rightarrow> location"

section \<open>process_overlap\<close>

text \<open>\<open>vec[i, 0:num_classes+1] = 0\<close> on the row \<open>r\<close>; a slice is clipped to the row.\<close>

definition clear_onehot :: "nat \<Rightarrow> rat list \<Rightarrow> rat list" where
  "clear_onehot num_classes r =
     replicate (min (num_classes + 1) (length r)) 0 @ drop (num_classes + 1) r"

text \<open>The column a numpy integer index denotes in a row of width \<open>w\<close>.\<close>

definition resolve_col :: "nat \<Rightarrow> int \<Rightarrow> error + nat" where
  "resolve_col w l =
     (if 0 \<le> l \<and> l < int w then Inr (nat l)
      else if - int w \<le> l \<and> l < 0 then Inr (nat (l + int w))
      else Inl IndexError)"

text \<open>
  \<open>vec[i, num_classes+1:] = compute_location(box, anchor)\<close>: the four values fit the
  slice only when it has four columns; numpy raises ValueError otherwise.
\<close>

definition set_location :: "nat \<Rightarrow> location \<Rightarrow> rat list \<Rightarrow> error + rat list" where
  "set_location num_classes loc r =
     (case loc of (x, y, w, h) \<Rightarrow>
        if length r = num_classes + 5 then Inr (take (num_classes + 1) r @ [x, y, w, h])
        else Inl ValueError)"

text \<open>\<open>overlap.idx in matches and matches[overlap.idx] >= overlap.score\<close>\<close>

definition claimed :: "matches \<Rightarrow> match_score \<Rightarrow> bool" where
  "claimed m ov = (case m (idx ov) of None \<Rightarrow> False | Some s \<Rightarrow> s \<ge> score ov)"

definition process_overlap ::
  "ssdutils \<Rightarrow> match_score \<Rightarrow> box \<Rightarrow> anchor \<Rightarrow> matches \<Rightarrow> nat \<Rightarrow> vec
     \<Rightarrow> error + (matches \<times> vec)" where
  "process_overlap U ov b a m num_classes v =
     (if claimed m ov then Inr (m, v)
      else
        let m' = m(idx ov \<mapsto> score ov) in
        if length v \<le> idx ov then Inl IndexError
        else
          let r0 = clear_onehot num_classes (v ! idx ov) in
          case resolve_col (length r0) (labelid b) of
            Inl e \<Rightarrow> Inl e
          | Inr c \<Rightarrow>
              (case set_location num_classes (compute_location U b a) (r0[c := 1]) of
                 Inl e \<Rightarrow> Inl e
               | Inr r \<Rightarrow> Inr (m', v[idx ov := r])))"

section \<open>The encoding of one sample\<close>

definition ref_size :: img_size where
  "ref_size = \<lparr>width = 1000, height = 1000\<rparr>"

text \<open>The overlap entry the script stores for a box (lines 93 and 94).\<close>

definition box_overlap :: "ssdutils \<Rightarrow> anchor list \<Rightarrow> box \<Rightarrow> overlap" where
  "box_overlap U anchors b =
     compute_overlap U (box2array U b ref_size) (anchors2array U anchors ref_size) (1 / 2)"

text \<open>The dictionary \<open>overlaps\<close>, filled in the order of the boxes.\<close>

fun sample_overlaps ::
  "ssdutils \<Rightarrow> anchor list \<Rightarrow> box list \<Rightarrow> (box \<rightharpoonup> overlap) \<Rightarrow> (box \<rightharpoonup> overlap)" where
  "sample_overlaps U anchors [] d = d"
| "sample_overlaps U anchors (b # bs) d =
     sample_overlaps U anchors bs (d(b \<mapsto> box_overlap U anchors b))"

text \<open>
  \<open>np.zeros((vheight, vwidth))\<close> followed by the five column assignments of lines
  100 to 104.
\<close>

definition init_row :: "nat \<Rightarrow> rat list" where
  "init_row num_classes =
     (replicate (num_classes + 5) 0)
       [num_classes := 1, num_classes + 1 := 0, num_classes + 2 := 0,
        num_classes + 3 := 0, num_classes + 4 := 0]"

definition init_vec :: "nat \<Rightarrow> nat \<Rightarrow> vec" where
  "init_vec vheight num_classes = replicate vheight (init_row num_classes)"

text \<open>The inner loop of the first pass: the good matches of one box.\<close>

fun good_loop ::
  "ssdutils \<Rightarrow> anchor list \<Rightarrow> nat \<Rightarrow> box \<Rightarrow> match_score list \<Rightarrow> matches \<times> vec
     \<Rightarrow> error + (matches \<times> vec)" where
  "good_loop U anchors num_classes b [] st = Inr st"
| "good_loop U anchors num_classes b (ov # ovs) st =
     (if length anchors \<le> idx ov then Inl IndexError
      else
        case process_overlap U ov b (anchors ! idx ov) (fst st) num_classes (snd st) of
          Inl e \<Rightarrow> Inl e
        | Inr st' \<Rightarrow> good_loop U anchors num_classes b ovs st')"

fun first_pass ::
  "ssdutils \<Rightarrow> anchor list \<Rightarrow> nat \<Rightarrow> (box \<rightharpoonup> overlap) \<Rightarrow> box list \<Rightarrow> matches \<times> vec
     \<Rightarrow> error + (matches \<times> vec)" where
  "first_pass U anchors num_classes overlaps [] st = Inr st"
| "first_pass U anchors num_classes overlaps (b # bs) st =
     (case overlaps b of
        None \<Rightarrow> Inl KeyError
      | Some ovl \<Rightarrow>
          (case good_loop U anchors num_classes b (good ovl) st of
             Inl e \<Rightarrow> Inl e
           | Inr st' \<Rightarrow> first_pass U anchors num_classes overlaps bs st'))"

fun second_pass ::
  "ssdutils \<Rightarrow> anchor list \<Rightarrow> nat \<Rightarrow> (box \<rightharpoonup> overlap) \<Rightarrow> box list \<Rightarrow> matches \<times> vec
     \<Rightarrow> error + (matches \<times> vec)" where
  "second_pass U anchors num_classes overlaps [] st = Inr st"
| "second_pass U anchors num_classes overlaps (b # bs) st =
     (case overlaps b of
        None \<Rightarrow> Inl KeyError
      | Some ovl \<Rightarrow>
          if length anchors \<le> idx (best ovl) then Inl IndexError
          else
            (case process_overlap U (best ovl) b (anchors ! idx (best ovl)) (fst st)
                    num_classes (snd st) of
               Inl e \<Rightarrow> Inl e
             | Inr st' \<Rightarrow> second_pass U anchors num_classes overlaps bs st'))"

text \<open>
  Lines 85 to 117: the body of the loop over the samples up to the point where the vector
  is saved. The match table of the second pass is a new, empty dictionary.
\<close>

definition encode_sample ::
  "ssdutils \<Rightarrow> anchor list \<Rightarrow> nat \<Rightarrow> sample \<Rightarrow> error + vec" where
  "encode_sample U anchors num_classes s =
     (let overlaps = sample_overlaps U anchors (boxes s) Map.empty;
          vec = init_vec (length anchors) num_classes
      in case first_pass U anchors num_classes overlaps (boxes s) (Map.empty, vec) of
           Inl e \<Rightarrow> Inl e
         | Inr st1 \<Rightarrow>
             (case second_pass U anchors num_classes overlaps (boxes s)
                     (Map.empty, snd st1) of
                Inl e \<Rightarrow> Inl e
              | Inr st2 \<Rightarrow> Inr (snd st2)))"

section \<open>compute_gt: paths, files and the manifest\<close>

text \<open>
  Strings are lists of bytes. \<open>str.strip()\<close> removes the white space of Python at both
  ends; the names the script passes are ASCII, and the ASCII white space is modelled.
\<close>

definition is_space :: "char \<Rightarrow> bool" where
  "is_space c = (c \<in> set [CHR 0x09, CHR 0x0A, CHR 0x0B, CHR 0x0C, CHR 0x0D,
                           CHR 0x1C, CHR 0x1D, CHR 0x1E, CHR 0x1F, CHR 0x20])"

definition strip :: "string \<Rightarrow> string" where
  "strip s = rev (dropWhile is_space (rev (dropWhile is_space s)))"

text \<open>\<open>os.path.basename\<close>: what follows the last slash.\<close>

definition basename :: "string \<Rightarrow> string" where
  "basename p = rev (takeWhile (\<lambda>c. c \<noteq> CHR ''/'') (rev p))"

type_synonym image = "nat list"
type_synonym color = "nat \<times> nat \<times> nat"

text \<open>
  Modelled from the spec: the preset is a value of \<open>ssdutils\<close>, a named configuration of
  the input resolution; the script only passes it on and stores it.
\<close>

record preset =
  preset_name :: string
  preset_size :: img_size

record training_data =
  td_preset :: preset
  td_num_classes :: nat
  td_colors :: "string \<rightharpoonup> color"
  td_lid2name :: "nat \<rightharpoonup> string"
  td_lname2id :: "string \<rightharpoonup> nat"

datatype content =
    Npy vec
  | SampleList "(sample \<times> string) list"
  | Image image
  | TrainingData training_data

text \<open>The part of the file system the script touches: directories and files by path.\<close>

record world =
  dirs :: "string set"
  files :: "string \<rightharpoonup> content"

definition makedirs_if_missing :: "string \<Rightarrow> world \<Rightarrow> world" where
  "makedirs_if_missing d w = (if d \<in> dirs w then w else w\<lparr>dirs := insert d (dirs w)\<rparr>)"

definition write_file :: "string \<Rightarrow> content \<Rightarrow> world \<Rightarrow> world" where
  "write_file p c w = w\<lparr>files := (files w)(p \<mapsto> c)\<rparr>"

definition gt_result_dir :: "string \<Rightarrow> string \<Rightarrow> string" where
  "gt_result_dir data_dir name = data_dir @ ''/ground_truth/'' @ strip name @ ''/''"

definition gt_fn :: "string \<Rightarrow> sample \<Rightarrow> string" where
  "gt_fn result_dir s = result_dir @ basename (filename s) @ ''.npy''"

definition manifest_path :: "string \<Rightarrow> string \<Rightarrow> string" where
  "manifest_path data_dir name = data_dir @ ''/'' @ strip name @ ''-samples.pkl''"

text \<open>
  The loop over the samples (lines 84 to 124), threading the file system and
  \<open>sample_list\<close>. An exception in the encoding of a sample ends the run.
\<close>

fun gt_loop ::
  "ssdutils \<Rightarrow> string \<Rightarrow> anchor list \<Rightarrow> nat \<Rightarrow> sample list
     \<Rightarrow> world \<times> (sample \<times> string) list \<Rightarrow> error + (world \<times> (sample \<times> string) list)" where
  "gt_loop U result_dir anchors num_classes [] st = Inr st"
| "gt_loop U result_dir anchors num_classes (s # ss) st =
     (case encode_sample U anchors num_classes s of
        Inl e \<Rightarrow> Inl e
      | Inr vec \<Rightarrow>
          gt_loop U result_dir anchors num_classes ss
            (write_file (gt_fn result_dir s) (Npy vec) (fst st),
             snd st @ [(s, gt_fn result_dir s)]))"

definition compute_gt ::
  "ssdutils \<Rightarrow> string \<Rightarrow> sample list \<Rightarrow> anchor list \<Rightarrow> nat \<Rightarrow> string \<Rightarrow> world
     \<Rightarrow> error + world" where
  "compute_gt U data_dir samples anchors num_classes name w =
     (let result_dir = gt_result_dir data_dir name;
          w1 = makedirs_if_missing result_dir w
      in case gt_loop U result_dir anchors num_classes samples (w1, []) of
           Inl e \<Rightarrow> Inl e
         | Inr (w2, sample_list) \<Rightarrow>
             Inr (write_file (manifest_path data_dir name) (SampleList sample_list) w2))"

section \<open>annotate and main\<close>

text \<open>
  The image functions of \<open>cv2\<close> and \<open>utils.draw_box\<close> are parameters; drawing may raise.
\<close>

record imaging =
  imread :: "string \<Rightarrow> image"
  draw_box :: "image \<Rightarrow> box \<Rightarrow> color \<Rightarrow> error + image"

fun draw_boxes ::
  "imaging \<Rightarrow> (string \<rightharpoonup> color) \<Rightarrow> box list \<Rightarrow> image \<Rightarrow> error + image" where
  "draw_boxes G cols [] img = Inr img"
| "draw_boxes G cols (b # bs) img =
     (case cols (label b) of
        None \<Rightarrow> Inl KeyError
      | Some c \<Rightarrow>
          (case draw_box G img b c of
             Inl e \<Rightarrow> Inl e
           | Inr img' \<Rightarrow> draw_boxes G cols bs img'))"

fun annotate_loop ::
  "imaging \<Rightarrow> string \<Rightarrow> (string \<rightharpoonup> color) \<Rightarrow> sample list \<Rightarrow> world \<Rightarrow> error + world" where
  "annotate_loop G result_dir cols [] w = Inr w"
| "annotate_loop G result_dir cols (s # ss) w =
     (case draw_boxes G cols (boxes s) (imread G (filename s)) of
        Inl e \<Rightarrow> Inl e
      | Inr img \<Rightarrow>
          annotate_loop G result_dir cols ss
            (write_file (result_dir @ basename (filename s)) (Image img) w))"

definition annotate ::
  "imaging \<Rightarrow> string \<Rightarrow> sample list \<Rightarrow> (string \<rightharpoonup> color) \<Rightarrow> string \<Rightarrow> world
     \<Rightarrow> error + world" where
  "annotate G data_dir samples cols sample_name w =
     (let result_dir = data_dir @ ''/annotated/'' @ strip sample_name @ ''/''
      in annotate_loop G result_dir cols samples (makedirs_if_missing result_dir w))"

text \<open>
  The data source is a plugin loaded by name. Its loading (lines 165 to 171: the import,
  the two load calls and the reads of its counters) is one parameter, which returns the
  loaded source or the exception raised on the way.
\<close>

record source =
  train_samples :: "sample list"
  valid_samples :: "sample list"
  test_samples :: "sample list"
  num_classes :: nat
  colors :: "string \<rightharpoonup> color"
  lid2name :: "nat \<rightharpoonup> string"
  lname2id :: "string \<rightharpoonup> nat"

record args =
  data_source :: string
  data_dir :: string
  validation_fraction :: rat
  annotate_arg :: bool
  compute_gt_arg :: bool
  preset_arg :: string

record env =
  load_data_source :: "string \<Rightarrow> string \<Rightarrow> rat \<Rightarrow> error + source"
  get_preset_by_name :: "string \<Rightarrow> preset"
  get_anchors_for_preset :: "preset \<Rightarrow> anchor list"
  utils :: ssdutils
  cv2 :: imaging

text \<open>The \<open>except (ImportError, AttributeError, RuntimeError)\<close> clause of line 172.\<close>

definition caught :: "error \<Rightarrow> bool" where
  "caught e = (e = ImportError \<or> e = AttributeError \<or> e = RuntimeError)"

definition annotate_all :: "env \<Rightarrow> args \<Rightarrow> source \<Rightarrow> world \<Rightarrow> error + world" where
  "annotate_all E A src w =
     (case annotate (cv2 E) (data_dir A) (train_samples src) (colors src) ''train'' w of
        Inl e \<Rightarrow> Inl e
      | Inr w1 \<Rightarrow>
          (case annotate (cv2 E) (data_dir A) (valid_samples src) (colors src) ''valid'' w1 of
             Inl e \<Rightarrow> Inl e
           | Inr w2 \<Rightarrow>
               annotate (cv2 E) (data_dir A) (test_samples src) (colors src) ''test '' w2))"

definition compute_gt_all :: "env \<Rightarrow> args \<Rightarrow> source \<Rightarrow> world \<Rightarrow> error + world" where
  "compute_gt_all E A src w =
     (let p = get_preset_by_name E (preset_arg A);
          anchors = get_anchors_for_preset E p
      in case compute_gt (utils E) (data_dir A) (train_samples src) anchors
                (num_classes src) ''train'' w of
           Inl e \<Rightarrow> Inl e
         | Inr w1 \<Rightarrow>
             (case compute_gt (utils E) (data_dir A) (valid_samples src) anchors
                     (num_classes src) ''valid'' w1 of
                Inl e \<Rightarrow> Inl e
              | Inr w2 \<Rightarrow>
                  Inr (write_file (data_dir A @ ''/training-data.pkl'')
                         (TrainingData \<lparr>td_preset = p, td_num_classes = num_classes src,
                            td_colors = colors src, td_lid2name = lid2name src,
                            td_lname2id = lname2id src\<rparr>) w2)))"

text \<open>
  \<open>main\<close>: \<open>Inr (code, w)\<close> is a return with the exit code, \<open>Inl e\<close> an exception that
  leaves \<open>main\<close> uncaught.
\<close>

definition main :: "env \<Rightarrow> args \<Rightarrow> world \<Rightarrow> error + (int \<times> world)" where
  "main E A w =
     (case load_data_source E (data_source A) (data_dir A) (validation_fraction A) of
        Inl e \<Rightarrow> if caught e then Inr (1, w) else Inl e
      | Inr src \<Rightarrow>
          (case (if annotate_arg A then annotate_all E A src w else Inr w) of
             Inl e \<Rightarrow> Inl e
           | Inr w1 \<Rightarrow>
               (case (if compute_gt_arg A then compute_gt_all E A src w1 else Inr w1) of
                  Inl e \<Rightarrow> Inl e
                | Inr w2 \<Rightarrow> Inr (0, w2))))"

section \<open>Notions used in the statements\<close>

text \<open>The matching attempts of a pass, in the order in which the loops make them.\<close>

definition good_entries :: "(box \<Rightarrow> overlap) \<Rightarrow> box list \<Rightarrow> (match_score \<times> box) list" where
  "good_entries f bs = concat (map (\<lambda>b. map (\<lambda>ov. (ov, b)) (good (f b))) bs)"

definition best_entries :: "(box \<Rightarrow> overlap) \<Rightarrow> box list \<Rightarrow> (match_score \<times> box) list" where
  "best_entries f bs = map (\<lambda>b. (best (f b), b)) bs"

fun run_entries ::
  "ssdutils \<Rightarrow> anchor list \<Rightarrow> nat \<Rightarrow> (match_score \<times> box) list \<Rightarrow> matches \<times> vec
     \<Rightarrow> error + (matches \<times> vec)" where
  "run_entries U anchors nc [] st = Inr st"
| "run_entries U anchors nc (e # es) st =
     (if length anchors \<le> idx (fst e) then Inl IndexError
      else
        case process_overlap U (fst e) (snd e) (anchors ! idx (fst e)) (fst st) nc (snd st) of
          Inl err \<Rightarrow> Inl err
        | Inr st' \<Rightarrow> run_entries U anchors nc es st')"

text \<open>The vectors after each call of \<open>process_overlap\<close> that returns, in order.\<close>

fun entry_states ::
  "ssdutils \<Rightarrow> anchor list \<Rightarrow> nat \<Rightarrow> (match_score \<times> box) list \<Rightarrow> matches \<times> vec
     \<Rightarrow> vec list" where
  "entry_states U anchors nc [] st = []"
| "entry_states U anchors nc (e # es) st =
     (if length anchors \<le> idx (fst e) then []
      else
        case process_overlap U (fst e) (snd e) (anchors ! idx (fst e)) (fst st) nc (snd st) of
          Inl err \<Rightarrow> []
        | Inr st' \<Rightarrow> snd st' # entry_states U anchors nc es st')"

text \<open>
  The vectors a sample's encoding goes through: the initial one, then the vector after
  every call of \<open>process_overlap\<close> of the first pass and of the second pass.
\<close>

definition encode_states :: "ssdutils \<Rightarrow> anchor list \<Rightarrow> nat \<Rightarrow> sample \<Rightarrow> vec list" where
  "encode_states U anchors nc s =
     (let f = box_overlap U anchors;
          v0 = init_vec (length anchors) nc
      in v0 # entry_states U anchors nc (good_entries f (boxes s)) (Map.empty, v0) @
         (case run_entries U anchors nc (good_entries f (boxes s)) (Map.empty, v0) of
            Inl e \<Rightarrow> []
          | Inr st1 \<Rightarrow>
              entry_states U anchors nc (best_entries f (boxes s)) (Map.empty, snd st1)))"

text \<open>The column of the one-hot segment or of the offsets that a label id denotes.\<close>

definition class_col :: "nat \<Rightarrow> int \<Rightarrow> nat" where
  "class_col nc l = (if l < 0 then nat (l + int nc + 5) else nat l)"

text \<open>The row that \<open>process_overlap\<close> writes for a box and an anchor.\<close>

definition target_row :: "ssdutils \<Rightarrow> nat \<Rightarrow> box \<Rightarrow> anchor \<Rightarrow> rat list" where
  "target_row U nc b a =
     (case compute_location U b a of (x, y, w, h) \<Rightarrow>
        (replicate (nc + 1) 0)[class_col nc (labelid b) := 1] @ [x, y, w, h])"

text \<open>The all-background row with zero offsets.\<close>

definition background_row :: "nat \<Rightarrow> rat list" where
  "background_row nc = replicate nc 0 @ [1, 0, 0, 0, 0]"

text \<open>Exactly one of the first \<open>nc + 1\<close> columns is 1 and the others of them are 0.\<close>

definition one_hot_row :: "nat \<Rightarrow> rat list \<Rightarrow> bool" where
  "one_hot_row nc r =
     (nc < length r \<and> (\<exists>c \<in> {0..nc}. take (nc + 1) r = (replicate (nc + 1) 0)[c := 1]))"

definition one_hot_vec :: "nat \<Rightarrow> vec \<Rightarrow> bool" where
  "one_hot_vec nc v = (\<forall>r \<in> set v. one_hot_row nc r)"

text \<open>The one-hot segment of the row is the class of the box.\<close>

definition row_has_class :: "nat \<Rightarrow> box \<Rightarrow> rat list \<Rightarrow> bool" where
  "row_has_class nc b r =
     (take (nc + 1) r = (replicate (nc + 1) 0)[nat (labelid b) := 1])"

definition carries_class :: "nat \<Rightarrow> vec \<Rightarrow> box \<Rightarrow> bool" where
  "carries_class nc v b = (\<exists>r \<in> set v. row_has_class nc b r)"

definition vec_shape :: "nat \<Rightarrow> vec \<Rightarrow> bool" where
  "vec_shape nc v = (\<forall>r \<in> set v. length r = nc + 5)"

section \<open>Concrete inputs\<close>

text \<open>
  A small instance of the external functions: arrays are the scaled centre and size, the
  location is the difference of centres and sizes, and the overlap scorer is a table on
  the first coordinate of the box array.
\<close>

definition geom_array :: "rat \<times> rat \<Rightarrow> rat \<times> rat \<Rightarrow> img_size \<Rightarrow> rat list" where
  "geom_array c sz isz =
     [fst c * of_nat (width isz), snd c * of_nat (height isz),
      fst sz * of_nat (width isz), snd sz * of_nat (height isz)]"

definition score_table :: "rat list \<Rightarrow> rat list list \<Rightarrow> rat \<Rightarrow> overlap" where
  "score_table ba aa thr =
     (if ba = [] then \<lparr>best = \<lparr>idx = 0, score = 0\<rparr>, good = []\<rparr>
      else if hd ba = 100 then
        \<lparr>best = \<lparr>idx = 1, score = 19 / 20\<rparr>,
         good = [\<lparr>idx = 0, score = 9 / 10\<rparr>, \<lparr>idx = 1, score = 19 / 20\<rparr>]\<rparr>
      else if hd ba = 200 then \<lparr>best = \<lparr>idx = 0, score = 3 / 10\<rparr>, good = []\<rparr>
      else if hd ba = 300 then \<lparr>best = \<lparr>idx = 0, score = 3 / 10\<rparr>, good = []\<rparr>
      else if hd ba = 400 then
        \<lparr>best = \<lparr>idx = 0, score = 4 / 5\<rparr>, good = [\<lparr>idx = 0, score = 4 / 5\<rparr>]\<rparr>
      else if hd ba = 500 then
        \<lparr>best = \<lparr>idx = 0, score = 3 / 5\<rparr>, good = [\<lparr>idx = 0, score = 3 / 5\<rparr>]\<rparr>
      else \<lparr>best = \<lparr>idx = 0, score = 0\<rparr>, good = []\<rparr>)"

definition U0 :: ssdutils where
  "U0 = \<lparr>anchors2array = (\<lambda>as isz. map (\<lambda>a. geom_array (acenter a) (asize a) isz) as),
          box2array = (\<lambda>b isz. geom_array (bcenter b) (bsize b) isz),
          compute_overlap = score_table,
          compute_location = (\<lambda>b a.
            (fst (bcenter b) - fst (acenter a), snd (bcenter b) - snd (acenter a),
             fst (bsize b) - fst (asize a), snd (bsize b) - snd (asize a)))\<rparr>"

definition anchors0 :: "anchor list" where
  "anchors0 = [\<lparr>acenter = (1 / 4, 1 / 4), asize = (1 / 2, 1 / 2)\<rparr>,
               \<lparr>acenter = (3 / 4, 3 / 4), asize = (1 / 2, 1 / 2)\<rparr>]"

definition mk_box :: "string \<Rightarrow> int \<Rightarrow> rat \<Rightarrow> box" where
  "mk_box l i x = \<lparr>label = l, labelid = i, bcenter = (x, 1 / 4), bsize = (1 / 2, 1 / 2)\<rparr>"

definition box_a :: box where "box_a = mk_box ''cat'' 0 (1 / 10)"
definition box_b :: box where "box_b = mk_box ''dog'' 1 (1 / 5)"
definition box_c :: box where "box_c = mk_box ''cat'' 0 (3 / 10)"
definition box_d :: box where "box_d = mk_box ''dog'' 1 (2 / 5)"
definition box_e :: box where "box_e = mk_box ''cat'' 0 (1 / 2)"

definition mk_sample :: "string \<Rightarrow> box list \<Rightarrow> nat \<Rightarrow> sample" where
  "mk_sample fn bs n = \<lparr>filename = fn, boxes = bs, imgsize = \<lparr>width = n, height = n\<rparr>\<rparr>"

text \<open>A data source that loads with the given outcome, and the default arguments.\<close>

definition source0 :: source where
  "source0 =
     \<lparr>train_samples = [mk_sample ''imgs/a.jpg'' [box_b] 300],
      valid_samples = [mk_sample ''imgs/b.jpg'' [] 500],
      test_samples = [],
      num_classes = 2,
      colors = [''cat'' \<mapsto> (0, 0, 255), ''dog'' \<mapsto> (0, 255, 0)],
      lid2name = [0 \<mapsto> ''cat'', 1 \<mapsto> ''dog''],
      lname2id = [''cat'' \<mapsto> 0, ''dog'' \<mapsto> 1]\<rparr>"

definition env0 :: "error + source \<Rightarrow> env" where
  "env0 r =
     \<lparr>load_data_source = (\<lambda>ds dir frac. r),
      get_preset_by_name = (\<lambda>n. \<lparr>preset_name = n, preset_size = \<lparr>width = 300, height = 300\<rparr>\<rparr>),
      get_anchors_for_preset = (\<lambda>p. anchors0),
      utils = U0,
      cv2 = \<lparr>imread = (\<lambda>fn. []), draw_box = (\<lambda>img b c. Inr img)\<rparr>\<rparr>"

definition args0 :: args where
  "args0 =
     \<lparr>data_source = ''pascal_voc'', data_dir = ''pascal-voc'', validation_fraction = 1 / 40,
      annotate_arg = False, compute_gt_arg = True, preset_arg = ''vgg300''\<rparr>"

definition world0 :: world where
  "world0 = \<lparr>dirs = {}, files = Map.empty\<rparr>"

text \<open>
  A second instance of the external functions: it agrees with the first one on the canvas
  of 1000 by 1000 and returns empty arrays for every other size.
\<close>

definition U1 :: ssdutils where
  "U1 = U0\<lparr>anchors2array := (\<lambda>as isz. if isz = ref_size then anchors2array U0 as isz else []),
             box2array := (\<lambda>b isz. if isz = ref_size then box2array U0 b isz else [])\<rparr>"

text \<open>What a run left at a path; nothing when the run ended with an exception.\<close>

definition saved_at :: "error + world \<Rightarrow> string \<Rightarrow> content option" where
  "saved_at r p = (case r of Inl e \<Rightarrow> None | Inr w \<Rightarrow> files w p)"

section \<open>Properties of process_overlap and of a pass\<close>


lemma process_overlap_claimed:
  "claimed m ov \<Longrightarrow> process_overlap U ov b a m nc v = Inr (m, v)"
  by (simp add: process_overlap_def)

lemma resolve_col_bound:
  "resolve_col w l = Inr c \<Longrightarrow> c < w"
  by (auto simp: resolve_col_def split: if_splits)

lemma resolve_col_class_col:
  "resolve_col (nc + 5) l = Inr c \<Longrightarrow> c = class_col nc l"
  by (auto simp: resolve_col_def class_col_def split: if_splits)

lemma length_clear_onehot [simp]: "length (clear_onehot nc r) = length r"
  by (simp add: clear_onehot_def)

lemma take_clear_onehot:
  "nc < length r \<Longrightarrow> take (nc + 1) (clear_onehot nc r) = replicate (nc + 1) 0"
  by (simp add: clear_onehot_def min_def)

lemma process_overlap_write:
  assumes "process_overlap U ov b a m nc v = Inr (m', v')"
    and "\<not> claimed m ov"
    and "idx ov < length v \<longrightarrow> length (v ! idx ov) = nc + 5"
  shows "idx ov < length v \<and> m' = m(idx ov \<mapsto> score ov)
         \<and> v' = v[idx ov := target_row U nc b a]"
proof -
  from assms(1,2) have lt: "idx ov < length v"
    by (auto simp: process_overlap_def Let_def split: if_splits)
  with assms(3) have len: "length (v ! idx ov) = nc + 5" by simp
  obtain x y w h where loc: "compute_location U b a = (x, y, w, h)"
    by (cases "compute_location U b a") auto
  from assms(1,2) lt len obtain c where
    c: "resolve_col (nc + 5) (labelid b) = Inr c"
    and res: "m' = m(idx ov \<mapsto> score ov)"
      "v' = v[idx ov := take (nc + 1) ((clear_onehot nc (v ! idx ov))[c := 1]) @ [x, y, w, h]]"
    by (auto simp: process_overlap_def Let_def set_location_def loc
        split: if_splits sum.splits)
  have "take (nc + 1) ((clear_onehot nc (v ! idx ov))[c := 1])
        = (replicate (nc + 1) 0)[c := 1]"
  proof -
    have "take (nc + 1) (clear_onehot nc (v ! idx ov)) = replicate (nc + 1) 0"
      by (rule take_clear_onehot) (simp add: len)
    then show ?thesis
      by (simp only: take_update_swap)
  qed
  moreover have "c = class_col nc (labelid b)"
    using c by (rule resolve_col_class_col)
  ultimately show ?thesis
    using res loc lt by (simp only: target_row_def prod.case)
qed


lemma length_target_row [simp]: "length (target_row U nc b a) = nc + 5"
  by (cases "compute_location U b a") (simp add: target_row_def del: replicate.simps)

lemma process_overlap_cases:
  assumes "process_overlap U ov b a m nc v = Inr (m', v')" and "vec_shape nc v"
  shows "(claimed m ov \<and> m' = m \<and> v' = v) \<or>
         (\<not> claimed m ov \<and> idx ov < length v \<and> m' = m(idx ov \<mapsto> score ov)
            \<and> v' = v[idx ov := target_row U nc b a])"
proof (cases "claimed m ov")
  case True
  with assms(1) show ?thesis by (simp add: process_overlap_claimed)
next
  case False
  have "idx ov < length v \<longrightarrow> length (v ! idx ov) = nc + 5"
    using assms(2) by (simp add: vec_shape_def)
  with assms(1) False show ?thesis
    using process_overlap_write by blast
qed

lemma vec_shape_update:
  "vec_shape nc v \<Longrightarrow> length r = nc + 5 \<Longrightarrow> vec_shape nc (v[i := r])"
  unfolding vec_shape_def by (auto dest: subsetD [OF set_update_subset_insert])

lemma process_overlap_shape:
  assumes "process_overlap U ov b a m nc v = Inr (m', v')" and "vec_shape nc v"
  shows "vec_shape nc v' \<and> length v' = length v"
  using process_overlap_cases [OF assms] assms(2)
  by (auto simp: vec_shape_update)

lemma run_entries_append:
  "run_entries U as nc (xs @ ys) st =
     (case run_entries U as nc xs st of
        Inl e \<Rightarrow> Inl e
      | Inr st' \<Rightarrow> run_entries U as nc ys st')"
  by (induction xs arbitrary: st) (auto split: sum.splits)

lemma run_entries_shape:
  "run_entries U as nc es (m, v) = Inr (m', v') \<Longrightarrow> vec_shape nc v
     \<Longrightarrow> vec_shape nc v' \<and> length v' = length v"
proof (induction es arbitrary: m v)
  case Nil
  then show ?case by simp
next
  case (Cons e es)
  from Cons.prems(1) obtain m1 v1 where
    step: "process_overlap U (fst e) (snd e) (as ! idx (fst e)) m nc v = Inr (m1, v1)"
    and rest: "run_entries U as nc es (m1, v1) = Inr (m', v')"
    by (auto split: if_splits sum.splits)
  from process_overlap_shape [OF step Cons.prems(2)]
  have "vec_shape nc v1" "length v1 = length v" by simp_all
  with Cons.IH [OF rest] show ?case by simp
qed

text \<open>An anchor that no attempt names keeps its table entry and its row.\<close>

lemma run_entries_frame:
  "run_entries U as nc es (m, v) = Inr (m', v') \<Longrightarrow> vec_shape nc v
     \<Longrightarrow> \<forall>e \<in> set es. idx (fst e) \<noteq> a
     \<Longrightarrow> m' a = m a \<and> v' ! a = v ! a"
proof (induction es arbitrary: m v)
  case Nil
  then show ?case by simp
next
  case (Cons e es)
  from Cons.prems(1) obtain m1 v1 where
    step: "process_overlap U (fst e) (snd e) (as ! idx (fst e)) m nc v = Inr (m1, v1)"
    and rest: "run_entries U as nc es (m1, v1) = Inr (m', v')"
    by (auto split: if_splits sum.splits)
  have ne: "idx (fst e) \<noteq> a" using Cons.prems(3) by simp
  from process_overlap_cases [OF step Cons.prems(2)] ne
  have same: "m1 a = m a \<and> v1 ! a = v ! a" by auto
  from process_overlap_shape [OF step Cons.prems(2)] have "vec_shape nc v1" by simp
  from Cons.IH [OF rest this] Cons.prems(3) same show ?case by simp
qed

text \<open>A recorded score that no later attempt exceeds stays, with its row.\<close>

lemma run_entries_stable:
  "run_entries U as nc es (m, v) = Inr (m', v') \<Longrightarrow> vec_shape nc v
     \<Longrightarrow> m a = Some t
     \<Longrightarrow> \<forall>e \<in> set es. idx (fst e) = a \<longrightarrow> score (fst e) \<le> t
     \<Longrightarrow> m' a = Some t \<and> v' ! a = v ! a"
proof (induction es arbitrary: m v)
  case Nil
  then show ?case by simp
next
  case (Cons e es)
  from Cons.prems(1) obtain m1 v1 where
    step: "process_overlap U (fst e) (snd e) (as ! idx (fst e)) m nc v = Inr (m1, v1)"
    and rest: "run_entries U as nc es (m1, v1) = Inr (m', v')"
    by (auto split: if_splits sum.splits)
  have same: "m1 a = Some t \<and> v1 ! a = v ! a"
  proof (cases "idx (fst e) = a")
    case True
    with Cons.prems(3,4) have "claimed m (fst e)" by (simp add: claimed_def)
    with step show ?thesis using Cons.prems(3) by (simp add: process_overlap_claimed)
  next
    case False
    with process_overlap_cases [OF step Cons.prems(2)] Cons.prems(3)
    show ?thesis by auto
  qed
  from process_overlap_shape [OF step Cons.prems(2)] have "vec_shape nc v1" by simp
  from Cons.IH [OF rest this] same Cons.prems(4) show ?case by simp
qed

text \<open>Attempts with scores below \<open>t\<close> leave the recorded score below \<open>t\<close>.\<close>

lemma run_entries_below:
  "run_entries U as nc es (m, v) = Inr (m', v') \<Longrightarrow> vec_shape nc v
     \<Longrightarrow> (case m a of None \<Rightarrow> True | Some s \<Rightarrow> s < t)
     \<Longrightarrow> \<forall>e \<in> set es. idx (fst e) = a \<longrightarrow> score (fst e) < t
     \<Longrightarrow> (case m' a of None \<Rightarrow> True | Some s \<Rightarrow> s < t)"
proof (induction es arbitrary: m v)
  case Nil
  then show ?case by simp
next
  case (Cons e es)
  from Cons.prems(1) obtain m1 v1 where
    step: "process_overlap U (fst e) (snd e) (as ! idx (fst e)) m nc v = Inr (m1, v1)"
    and rest: "run_entries U as nc es (m1, v1) = Inr (m', v')"
    by (auto split: if_splits sum.splits)
  from process_overlap_cases [OF step Cons.prems(2)] Cons.prems(3,4)
  have below: "case m1 a of None \<Rightarrow> True | Some s \<Rightarrow> s < t"
    by (cases "idx (fst e) = a") (auto split: option.splits)
  from process_overlap_shape [OF step Cons.prems(2)] have "vec_shape nc v1" by simp
  from Cons.IH [OF rest this below] Cons.prems(4) show ?case by simp
qed

text \<open>
  The attempt that beats every earlier attempt on its anchor and is not beaten by a
  later one determines the anchor's recorded score and row at the end of the pass.
\<close>

lemma run_entries_winner:
  assumes run: "run_entries U as nc (pre @ e # post) (m, v) = Inr (m', v')"
    and shape: "vec_shape nc v"
    and start: "case m (idx (fst e)) of None \<Rightarrow> True | Some s \<Rightarrow> s < score (fst e)"
    and earlier: "\<forall>x \<in> set pre. idx (fst x) = idx (fst e) \<longrightarrow> score (fst x) < score (fst e)"
    and later: "\<forall>x \<in> set post. idx (fst x) = idx (fst e) \<longrightarrow> score (fst x) \<le> score (fst e)"
  shows "m' (idx (fst e)) = Some (score (fst e)) \<and>
         v' ! idx (fst e) = target_row U nc (snd e) (as ! idx (fst e)) \<and>
         idx (fst e) < length v'"
proof -
  from run obtain m1 v1 where
    r1: "run_entries U as nc pre (m, v) = Inr (m1, v1)"
    and r2: "run_entries U as nc (e # post) (m1, v1) = Inr (m', v')"
    by (auto simp: run_entries_append simp del: run_entries.simps split: sum.splits)
  from r2 obtain m2 v2 where
    step: "process_overlap U (fst e) (snd e) (as ! idx (fst e)) m1 nc v1 = Inr (m2, v2)"
    and r3: "run_entries U as nc post (m2, v2) = Inr (m', v')"
    by (auto split: if_splits sum.splits)
  from run_entries_shape [OF r1 shape] have s1: "vec_shape nc v1" by simp
  from process_overlap_shape [OF step s1]
  have s2: "vec_shape nc v2" and l2: "length v2 = length v1" by simp_all
  from run_entries_below [OF r1 shape start earlier]
  have "\<not> claimed m1 (fst e)" by (auto simp: claimed_def split: option.splits)
  with process_overlap_cases [OF step s1]
  have w: "idx (fst e) < length v1" "m2 = m1(idx (fst e) \<mapsto> score (fst e))"
    "v2 = v1[idx (fst e) := target_row U nc (snd e) (as ! idx (fst e))]"
    by auto
  then have "m2 (idx (fst e)) = Some (score (fst e))"
    and "v2 ! idx (fst e) = target_row U nc (snd e) (as ! idx (fst e))"
    by simp_all
  with run_entries_stable [OF r3 s2 _ later] run_entries_shape [OF r3 s2] w(1) l2
  show ?thesis by simp
qed


lemma good_loop_run:
  "good_loop U as nc b ovs st = run_entries U as nc (map (\<lambda>ov. (ov, b)) ovs) st"
  by (induction ovs arbitrary: st) (auto split: sum.splits)

lemma sample_overlaps_lookup:
  "sample_overlaps U as bs d b = (if b \<in> set bs then Some (box_overlap U as b) else d b)"
  by (induction bs arbitrary: d) auto

lemma first_pass_run:
  "\<forall>b \<in> set bs. d b = Some (f b)
     \<Longrightarrow> first_pass U as nc d bs st = run_entries U as nc (good_entries f bs) st"
proof (induction bs arbitrary: st)
  case Nil
  then show ?case by (simp add: good_entries_def)
next
  case (Cons b bs)
  then have IH: "\<And>st. first_pass U as nc d bs st = run_entries U as nc (good_entries f bs) st"
    and db: "d b = Some (f b)"
    by simp_all
  have "good_entries f (b # bs) = map (\<lambda>ov. (ov, b)) (good (f b)) @ good_entries f bs"
    by (simp add: good_entries_def)
  then show ?case
    by (simp add: db IH good_loop_run run_entries_append split: sum.splits)
qed

lemma second_pass_run:
  "\<forall>b \<in> set bs. d b = Some (f b)
     \<Longrightarrow> second_pass U as nc d bs st = run_entries U as nc (best_entries f bs) st"
  by (induction bs arbitrary: st) (auto simp: best_entries_def split: sum.splits)

lemma encode_sample_run:
  "encode_sample U as nc s =
     (case run_entries U as nc (good_entries (box_overlap U as) (boxes s))
             (Map.empty, init_vec (length as) nc) of
        Inl e \<Rightarrow> Inl e
      | Inr st1 \<Rightarrow>
          (case run_entries U as nc (best_entries (box_overlap U as) (boxes s))
                  (Map.empty, snd st1) of
             Inl e \<Rightarrow> Inl e
           | Inr st2 \<Rightarrow> Inr (snd st2)))"
proof -
  have d: "\<forall>b \<in> set (boxes s).
             sample_overlaps U as (boxes s) Map.empty b = Some (box_overlap U as b)"
    by (simp add: sample_overlaps_lookup)
  show ?thesis
    unfolding encode_sample_def Let_def
    by (simp only: first_pass_run [OF d] second_pass_run [OF d])
qed

lemma init_row_background: "init_row nc = background_row nc"
proof -
  have "replicate (nc + 5) (0::rat) = replicate nc 0 @ replicate 5 0"
    by (rule replicate_add)
  moreover have "replicate 5 (0::rat) = [0, 0, 0, 0, 0]"
    by (simp add: eval_nat_numeral)
  ultimately have "replicate (nc + 5) (0::rat) = replicate nc 0 @ [0, 0, 0, 0, 0]"
    by simp
  then show ?thesis
    by (simp add: init_row_def background_row_def list_update_append)
qed

lemma init_vec_background: "init_vec n nc = replicate n (background_row nc)"
  by (simp add: init_vec_def init_row_background)

lemma vec_shape_init: "vec_shape nc (init_vec n nc)"
  by (simp add: vec_shape_def init_vec_background background_row_def)

lemma length_init_vec [simp]: "length (init_vec n nc) = n"
  by (simp add: init_vec_def)



lemmas concrete_defs = box_overlap_def U0_def anchors0_def mk_box_def box_a_def box_b_def box_c_def box_d_def box_e_def
  mk_sample_def geom_array_def score_table_def ref_size_def encode_sample_def init_vec_def init_row_def
  process_overlap_def claimed_def clear_onehot_def resolve_col_def set_location_def Let_def

section \<open>Conflict resolution within a pass\<close>




section \<open>The two passes\<close>

lemma best_entries_winner:
  assumes run: "run_entries U as nc (best_entries f (pre @ b # post)) (Map.empty, v1) = Inr (m2, v)"
    and shape: "vec_shape nc v1"
    and earlier: "\<forall>x \<in> set pre. idx (best (f x)) = idx (best (f b))
                    \<longrightarrow> score (best (f x)) < score (best (f b))"
    and later: "\<forall>x \<in> set post. idx (best (f x)) = idx (best (f b))
                    \<longrightarrow> score (best (f x)) \<le> score (best (f b))"
  shows "m2 (idx (best (f b))) = Some (score (best (f b))) \<and>
         v ! idx (best (f b)) = target_row U nc b (as ! idx (best (f b))) \<and>
         idx (best (f b)) < length v"
proof -
  have split: "best_entries f (pre @ b # post)
                 = best_entries f pre @ (best (f b), b) # best_entries f post"
    by (simp add: best_entries_def)
  have "m2 (idx (fst (best (f b), b))) = Some (score (fst (best (f b), b))) \<and>
        v ! idx (fst (best (f b), b))
          = target_row U nc (snd (best (f b), b)) (as ! idx (fst (best (f b), b))) \<and>
        idx (fst (best (f b), b)) < length v"
  proof (rule run_entries_winner [OF run [unfolded split] shape])
    show "case Map.empty (idx (fst (best (f b), b))) of None \<Rightarrow> True
          | Some s \<Rightarrow> s < score (fst (best (f b), b))"
      by simp
    show "\<forall>x \<in> set (best_entries f pre). idx (fst x) = idx (fst (best (f b), b))
            \<longrightarrow> score (fst x) < score (fst (best (f b), b))"
      using earlier by (auto simp: best_entries_def)
    show "\<forall>x \<in> set (best_entries f post). idx (fst x) = idx (fst (best (f b), b))
            \<longrightarrow> score (fst x) \<le> score (fst (best (f b), b))"
      using later by (auto simp: best_entries_def)
  qed
  then show ?thesis by simp
qed

lemma sample_overlaps_boxes:
  "\<forall>b \<in> set bs. sample_overlaps U as bs Map.empty b = Some (box_overlap U as b)"
  by (simp add: sample_overlaps_lookup)

text \<open>
  C1. The second pass starts from an empty match table. Whatever the first pass recorded
  and wrote, the best match of a box is resolved against the best matches of the other
  boxes only: when it beats those before it on the same anchor and is not beaten by those
  after it, the anchor's row is the row of this box at the end, also when the first pass
  had recorded a strictly greater score for that anchor.
\<close>

theorem second_pass_ignores_first_pass_scores:
  assumes fp: "first_pass U as nc (sample_overlaps U as (boxes s) Map.empty) (boxes s)
                 (Map.empty, init_vec (length as) nc) = Inr (m1, v1)"
    and sp: "second_pass U as nc (sample_overlaps U as (boxes s) Map.empty) (boxes s)
                 (Map.empty, v1) = Inr (m2, v)"
    and pos: "boxes s = pre @ b # post"
    and earlier: "\<forall>x \<in> set pre.
        idx (best (box_overlap U as x)) = idx (best (box_overlap U as b))
          \<longrightarrow> score (best (box_overlap U as x)) < score (best (box_overlap U as b))"
    and later: "\<forall>x \<in> set post.
        idx (best (box_overlap U as x)) = idx (best (box_overlap U as b))
          \<longrightarrow> score (best (box_overlap U as x)) \<le> score (best (box_overlap U as b))"
  shows "encode_sample U as nc s = Inr v \<and>
         m2 (idx (best (box_overlap U as b))) = Some (score (best (box_overlap U as b))) \<and>
         v ! idx (best (box_overlap U as b))
           = target_row U nc b (as ! idx (best (box_overlap U as b)))"
proof -
  have enc: "encode_sample U as nc s = Inr v"
    using fp sp by (simp add: encode_sample_def Let_def)
  from fp have r1: "run_entries U as nc (good_entries (box_overlap U as) (boxes s))
                      (Map.empty, init_vec (length as) nc) = Inr (m1, v1)"
    by (simp add: first_pass_run [OF sample_overlaps_boxes])
  from run_entries_shape [OF r1 vec_shape_init] have shape: "vec_shape nc v1" by simp
  from sp have r2: "run_entries U as nc (best_entries (box_overlap U as) (pre @ b # post))
                      (Map.empty, v1) = Inr (m2, v)"
    by (simp add: second_pass_run [OF sample_overlaps_boxes] pos)
  from best_entries_winner [OF r2 shape earlier later] enc show ?thesis by simp
qed


theorem second_pass_ignores_first_pass_scores_witness:
  "first_pass U0 anchors0 2 (sample_overlaps U0 anchors0 [box_a, box_b] Map.empty)
       [box_a, box_b] (Map.empty, init_vec (length anchors0) 2)
     = Inr ([0 \<mapsto> 9 / 10, 1 \<mapsto> 19 / 20],
            [[1, 0, 0, - (3 / 20), 0, 0, 0], [1, 0, 0, - (13 / 20), - (1 / 2), 0, 0]]) \<and>
   second_pass U0 anchors0 2 (sample_overlaps U0 anchors0 [box_a, box_b] Map.empty)
       [box_a, box_b]
       (Map.empty, [[1, 0, 0, - (3 / 20), 0, 0, 0], [1, 0, 0, - (13 / 20), - (1 / 2), 0, 0]])
     = Inr ([1 \<mapsto> 19 / 20, 0 \<mapsto> 3 / 10],
            [[0, 1, 0, - (1 / 20), 0, 0, 0], [1, 0, 0, - (13 / 20), - (1 / 2), 0, 0]]) \<and>
   [0 \<mapsto> 9 / 10, 1 \<mapsto> 19 / 20 :: rat] (idx (best (box_overlap U0 anchors0 box_b)))
     = Some (9 / 10) \<and>
   score (best (box_overlap U0 anchors0 box_b)) = 3 / 10 \<and>
   encode_sample U0 anchors0 2 (mk_sample ''img/a.jpg'' [box_a, box_b] 300)
     = Inr [[0, 1, 0, - (1 / 20), 0, 0, 0], [1, 0, 0, - (13 / 20), - (1 / 2), 0, 0]] \<and>
   [[0, 1, 0, - (1 / 20), 0, 0, 0], [1, 0, 0, - (13 / 20), - (1 / 2), 0, 0 :: rat]]
       ! idx (best (box_overlap U0 anchors0 box_b))
     = target_row U0 2 box_b (anchors0 ! idx (best (box_overlap U0 anchors0 box_b)))"
  using second_pass_ignores_first_pass_scores
    [of U0 anchors0 2 "mk_sample ''img/a.jpg'' [box_a, box_b] 300"
        "[0 \<mapsto> 9 / 10, 1 \<mapsto> 19 / 20]"
        "[[1, 0, 0, - (3 / 20), 0, 0, 0], [1, 0, 0, - (13 / 20), - (1 / 2), 0, 0]]"
        "[1 \<mapsto> 19 / 20, 0 \<mapsto> 3 / 10]"
        "[[0, 1, 0, - (1 / 20), 0, 0, 0], [1, 0, 0, - (13 / 20), - (1 / 2), 0, 0]]"
        "[box_a]" box_b "[]"]
  by (simp add: concrete_defs eval_nat_numeral)


section \<open>Every box and its best anchor\<close>

lemma target_row_has_class:
  assumes "0 \<le> labelid b" and "labelid b \<le> int nc"
  shows "row_has_class nc b (target_row U nc b a)"
proof -
  obtain x y w h where loc: "compute_location U b a = (x, y, w, h)"
    by (cases "compute_location U b a") auto
  have col: "class_col nc (labelid b) = nat (labelid b)"
    using assms(1) by (simp add: class_col_def)
  have len: "length ((replicate (nc + 1) (0::rat))[nat (labelid b) := 1]) = nc + 1"
    by (simp only: length_list_update length_replicate)
  have "take (nc + 1) ((replicate (nc + 1) 0)[nat (labelid b) := 1] @ [x, y, w, h])
          = (replicate (nc + 1) (0::rat))[nat (labelid b) := 1]"
    by (simp only: take_append len take_all diff_self_eq_0 take_0 append_Nil2 order_refl)
  then show ?thesis
    by (simp only: row_has_class_def target_row_def loc col prod.case)
qed

text \<open>
  C4, as the code has it. A box whose best match beats the best matches of the boxes
  before it on the same anchor, and is not beaten by those of the boxes after it, has its
  class in the row of its best anchor at the end of the encoding. A box that loses its
  best anchor to another box is not guaranteed any row.
\<close>

theorem best_anchor_carries_class:
  assumes enc: "encode_sample U as nc s = Inr v"
    and pos: "boxes s = pre @ b # post"
    and lid: "0 \<le> labelid b" "labelid b \<le> int nc"
    and earlier: "\<forall>x \<in> set pre.
        idx (best (box_overlap U as x)) = idx (best (box_overlap U as b))
          \<longrightarrow> score (best (box_overlap U as x)) < score (best (box_overlap U as b))"
    and later: "\<forall>x \<in> set post.
        idx (best (box_overlap U as x)) = idx (best (box_overlap U as b))
          \<longrightarrow> score (best (box_overlap U as x)) \<le> score (best (box_overlap U as b))"
  shows "idx (best (box_overlap U as b)) < length v \<and>
         row_has_class nc b (v ! idx (best (box_overlap U as b))) \<and>
         carries_class nc v b"
proof -
  from enc obtain m1 v1 m2 where
    r1: "run_entries U as nc (good_entries (box_overlap U as) (boxes s))
           (Map.empty, init_vec (length as) nc) = Inr (m1, v1)"
    and r2: "run_entries U as nc (best_entries (box_overlap U as) (boxes s))
           (Map.empty, v1) = Inr (m2, v)"
    by (auto simp: encode_sample_run split: sum.splits)
  from run_entries_shape [OF r1 vec_shape_init] have shape: "vec_shape nc v1" by simp
  from best_entries_winner [OF r2 [unfolded pos] shape earlier later]
  have row: "v ! idx (best (box_overlap U as b))
               = target_row U nc b (as ! idx (best (box_overlap U as b)))"
    and lt: "idx (best (box_overlap U as b)) < length v"
    by simp_all
  from row target_row_has_class [OF lid]
  have cls: "row_has_class nc b (v ! idx (best (box_overlap U as b)))" by simp
  from lt have "v ! idx (best (box_overlap U as b)) \<in> set v" by simp
  with cls have "carries_class nc v b"
    unfolding carries_class_def by blast
  with lt cls show ?thesis by simp
qed

theorem best_anchor_carries_class_witness:
  "encode_sample U0 anchors0 2 (mk_sample ''img/b.jpg'' [box_b, box_c] 300)
     = Inr [[0, 1, 0, - (1 / 20), 0, 0, 0], [0, 0, 1, 0, 0, 0, 0]] \<and>
   idx (best (box_overlap U0 anchors0 box_b))
     < length [[0, 1, 0, - (1 / 20), 0, 0, 0], [0, 0, 1, 0, 0, 0, 0 :: rat]] \<and>
   row_has_class 2 box_b
     ([[0, 1, 0, - (1 / 20), 0, 0, 0], [0, 0, 1, 0, 0, 0, 0]]
        ! idx (best (box_overlap U0 anchors0 box_b))) \<and>
   carries_class 2 [[0, 1, 0, - (1 / 20), 0, 0, 0], [0, 0, 1, 0, 0, 0, 0]] box_b"
  using best_anchor_carries_class
    [of U0 anchors0 2 "mk_sample ''img/b.jpg'' [box_b, box_c] 300"
        "[[0, 1, 0, - (1 / 20), 0, 0, 0], [0, 0, 1, 0, 0, 0, 0]]" "[]" box_b "[box_c]"]
  by (simp add: concrete_defs eval_nat_numeral)

text \<open>
  Two boxes of different classes share their best anchor with the same score and have no
  good match. The first one takes the anchor; no row carries the class of the second one,
  although no competitor had a higher score.
\<close>

theorem box_without_row_counterexample:
  "encode_sample U0 anchors0 2 (mk_sample ''img/b.jpg'' [box_b, box_c] 300)
     = Inr [[0, 1, 0, - (1 / 20), 0, 0, 0], [0, 0, 1, 0, 0, 0, 0]] \<and>
   score (best (box_overlap U0 anchors0 box_b)) = score (best (box_overlap U0 anchors0 box_c)) \<and>
   \<not> carries_class 2 [[0, 1, 0, - (1 / 20), 0, 0, 0], [0, 0, 1, 0, 0, 0, 0]] box_c"
  by (simp add: concrete_defs carries_class_def row_has_class_def eval_nat_numeral)


section \<open>The one-hot invariant\<close>

lemma replicate_update_last:
  "(replicate (Suc n) (0::rat))[n := 1] = replicate n 0 @ [1]"
  by (induction n) auto

lemma one_hot_background: "one_hot_row nc (background_row nc)"
proof -
  have "take (nc + 1) (background_row nc) = replicate nc 0 @ [1]"
    by (simp add: background_row_def)
  also have "\<dots> = (replicate (Suc nc) 0)[nc := 1]"
    by (rule replicate_update_last [symmetric])
  finally have seg: "take (nc + 1) (background_row nc) = (replicate (nc + 1) 0)[nc := 1]"
    by (simp only: Suc_eq_plus1)
  have "nc \<in> {0..nc}" by simp
  moreover have "nc < length (background_row nc)"
    by (simp add: background_row_def)
  ultimately show ?thesis
    unfolding one_hot_row_def using seg by blast
qed

lemma one_hot_target_row:
  assumes "0 \<le> labelid b" and "labelid b \<le> int nc"
  shows "one_hot_row nc (target_row U nc b a)"
proof -
  from target_row_has_class [OF assms]
  have "take (nc + 1) (target_row U nc b a) = (replicate (nc + 1) 0)[nat (labelid b) := 1]"
    by (simp only: row_has_class_def)
  moreover have "nat (labelid b) \<in> {0..nc}" using assms by auto
  ultimately show ?thesis
    unfolding one_hot_row_def by (auto simp del: replicate.simps)
qed

lemma one_hot_vec_update:
  "one_hot_vec nc v \<Longrightarrow> one_hot_row nc r \<Longrightarrow> one_hot_vec nc (v[i := r])"
  unfolding one_hot_vec_def by (auto dest: subsetD [OF set_update_subset_insert])

lemma one_hot_init: "one_hot_vec nc (init_vec n nc)"
  by (simp add: one_hot_vec_def init_vec_background one_hot_background)

lemma process_overlap_one_hot:
  assumes "process_overlap U ov b a m nc v = Inr (m', v')"
    and "vec_shape nc v" and "one_hot_vec nc v"
    and "0 \<le> labelid b" and "labelid b \<le> int nc"
  shows "one_hot_vec nc v'"
  using process_overlap_cases [OF assms(1,2)] assms(3)
    one_hot_target_row [OF assms(4,5)]
  by (auto simp: one_hot_vec_update)

lemma entry_states_one_hot:
  "vec_shape nc v \<Longrightarrow> one_hot_vec nc v
     \<Longrightarrow> \<forall>e \<in> set es. 0 \<le> labelid (snd e) \<and> labelid (snd e) \<le> int nc
     \<Longrightarrow> \<forall>x \<in> set (entry_states U as nc es (m, v)). one_hot_vec nc x"
proof (induction es arbitrary: m v)
  case Nil
  then show ?case by simp
next
  case (Cons e es)
  show ?case
  proof (cases "length as \<le> idx (fst e)")
    case True
    then show ?thesis by simp
  next
    case False
    show ?thesis
    proof (cases "process_overlap U (fst e) (snd e) (as ! idx (fst e)) m nc v")
      case (Inl err)
      with False show ?thesis by simp
    next
      case (Inr st')
      obtain m1 v1 where st': "st' = (m1, v1)" by (cases st')
      from Inr st' have step:
        "process_overlap U (fst e) (snd e) (as ! idx (fst e)) m nc v = Inr (m1, v1)"
        by simp
      from Cons.prems(3) have lid: "0 \<le> labelid (snd e)" "labelid (snd e) \<le> int nc"
        by simp_all
      from process_overlap_shape [OF step Cons.prems(1)] have s1: "vec_shape nc v1" by simp
      from process_overlap_one_hot [OF step Cons.prems(1,2) lid]
      have h1: "one_hot_vec nc v1" .
      from Cons.IH [OF s1 h1] Cons.prems(3)
      have "\<forall>x \<in> set (entry_states U as nc es (m1, v1)). one_hot_vec nc x" by simp
      with False step h1 show ?thesis by simp
    qed
  qed
qed

lemma run_entries_one_hot:
  "run_entries U as nc es (m, v) = Inr (m', v') \<Longrightarrow> vec_shape nc v \<Longrightarrow> one_hot_vec nc v
     \<Longrightarrow> \<forall>e \<in> set es. 0 \<le> labelid (snd e) \<and> labelid (snd e) \<le> int nc
     \<Longrightarrow> one_hot_vec nc v'"
proof (induction es arbitrary: m v)
  case Nil
  then show ?case by simp
next
  case (Cons e es)
  from Cons.prems(1) obtain m1 v1 where
    step: "process_overlap U (fst e) (snd e) (as ! idx (fst e)) m nc v = Inr (m1, v1)"
    and rest: "run_entries U as nc es (m1, v1) = Inr (m', v')"
    by (auto split: if_splits sum.splits)
  from Cons.prems(4) have lid: "0 \<le> labelid (snd e)" "labelid (snd e) \<le> int nc"
    by simp_all
  from process_overlap_shape [OF step Cons.prems(2)] have s1: "vec_shape nc v1" by simp
  from process_overlap_one_hot [OF step Cons.prems(2,3) lid] have h1: "one_hot_vec nc v1" .
  from Cons.IH [OF rest s1 h1] Cons.prems(4) show ?case by simp
qed

lemma run_entries_last_state:
  "run_entries U as nc es (m, v) = Inr (m', v')
     \<Longrightarrow> last (v # entry_states U as nc es (m, v)) = v'"
proof (induction es arbitrary: m v)
  case Nil
  then show ?case by simp
next
  case (Cons e es)
  from Cons.prems obtain m1 v1 where
    step: "process_overlap U (fst e) (snd e) (as ! idx (fst e)) m nc v = Inr (m1, v1)"
    and rest: "run_entries U as nc es (m1, v1) = Inr (m', v')"
    and ok: "\<not> length as \<le> idx (fst e)"
    by (auto split: if_splits sum.splits)
  from Cons.IH [OF rest] step ok show ?case by simp
qed

lemma encode_sample_last_state:
  assumes "encode_sample U as nc s = Inr v"
  shows "last (encode_states U as nc s) = v"
proof -
  from assms obtain m1 v1 m2 where
    r1: "run_entries U as nc (good_entries (box_overlap U as) (boxes s))
           (Map.empty, init_vec (length as) nc) = Inr (m1, v1)"
    and r2: "run_entries U as nc (best_entries (box_overlap U as) (boxes s))
           (Map.empty, v1) = Inr (m2, v)"
    by (auto simp: encode_sample_run split: sum.splits)
  from run_entries_last_state [OF r1] run_entries_last_state [OF r2]
  show ?thesis
    by (simp add: encode_states_def Let_def r1 last_append split: if_splits)
qed

lemma good_entries_labels:
  "\<forall>b \<in> set bs. P b \<Longrightarrow> \<forall>e \<in> set (good_entries f bs). P (snd e)"
  by (auto simp: good_entries_def)

lemma best_entries_labels:
  "\<forall>b \<in> set bs. P b \<Longrightarrow> \<forall>e \<in> set (best_entries f bs). P (snd e)"
  by (auto simp: best_entries_def)

text \<open>
  C3. When every box of the sample has its \<open>labelid\<close> between 0 and \<open>num_classes\<close>, every
  row of the target vector has exactly one of its first \<open>num_classes + 1\<close> columns equal
  to 1 and the others equal to 0, in the initial vector and after every call of
  \<open>process_overlap\<close> in both passes, hence in the vector the encoding returns.
\<close>

theorem one_hot_at_every_step:
  assumes lid: "\<forall>b \<in> set (boxes s). 0 \<le> labelid b \<and> labelid b \<le> int nc"
  shows "(\<forall>x \<in> set (encode_states U as nc s). one_hot_vec nc x) \<and>
         (\<forall>v. encode_sample U as nc s = Inr v
            \<longrightarrow> v = last (encode_states U as nc s) \<and> one_hot_vec nc v)"
proof -
  let ?f = "box_overlap U as"
  let ?v0 = "init_vec (length as) nc"
  have g: "\<forall>e \<in> set (good_entries ?f (boxes s)). 0 \<le> labelid (snd e) \<and> labelid (snd e) \<le> int nc"
    using lid by (rule good_entries_labels)
  have b: "\<forall>e \<in> set (best_entries ?f (boxes s)). 0 \<le> labelid (snd e) \<and> labelid (snd e) \<le> int nc"
    using lid by (rule best_entries_labels)
  have p1: "\<forall>x \<in> set (entry_states U as nc (good_entries ?f (boxes s)) (Map.empty, ?v0)).
              one_hot_vec nc x"
    using entry_states_one_hot [OF vec_shape_init one_hot_init g] .
  have p2: "\<forall>x \<in> set (entry_states U as nc (best_entries ?f (boxes s)) (Map.empty, v1)).
              one_hot_vec nc x"
    if "run_entries U as nc (good_entries ?f (boxes s)) (Map.empty, ?v0) = Inr (m1, v1)"
    for m1 v1
  proof -
    from run_entries_shape [OF that vec_shape_init] have "vec_shape nc v1" by simp
    moreover from run_entries_one_hot [OF that vec_shape_init one_hot_init g]
    have "one_hot_vec nc v1" .
    ultimately show ?thesis using b by (rule entry_states_one_hot)
  qed
  have all: "\<forall>x \<in> set (encode_states U as nc s). one_hot_vec nc x"
  proof (cases "run_entries U as nc (good_entries ?f (boxes s)) (Map.empty, ?v0)")
    case (Inl e)
    with p1 one_hot_init show ?thesis
      by (simp add: encode_states_def Let_def)
  next
    case (Inr st1)
    obtain m1 v1 where st1: "st1 = (m1, v1)" by (cases st1)
    from p2 [of m1 v1] Inr st1 p1 one_hot_init show ?thesis
      by (auto simp: encode_states_def Let_def)
  qed
  have "v = last (encode_states U as nc s) \<and> one_hot_vec nc v"
    if enc: "encode_sample U as nc s = Inr v" for v
  proof -
    from encode_sample_last_state [OF enc] have l: "last (encode_states U as nc s) = v" .
    have "encode_states U as nc s \<noteq> []" by (simp add: encode_states_def Let_def)
    then have "last (encode_states U as nc s) \<in> set (encode_states U as nc s)"
      by (rule last_in_set)
    with all l show ?thesis by auto
  qed
  with all show ?thesis by blast
qed


theorem one_hot_at_every_step_witness:
  "list_all (\<lambda>b. 0 \<le> labelid b \<and> labelid b \<le> int 2)
     (boxes (mk_sample ''img/a.jpg'' [box_a, box_b] 300)) \<and>
   list_all (one_hot_vec 2)
     (encode_states U0 anchors0 2 (mk_sample ''img/a.jpg'' [box_a, box_b] 300)) \<and>
   encode_sample U0 anchors0 2 (mk_sample ''img/a.jpg'' [box_a, box_b] 300)
     = Inr [[0, 1, 0, - (1 / 20), 0, 0, 0], [1, 0, 0, - (13 / 20), - (1 / 2), 0, 0]] \<and>
   [[0, 1, 0, - (1 / 20), 0, 0, 0], [1, 0, 0, - (13 / 20), - (1 / 2), 0, 0]]
     = last (encode_states U0 anchors0 2 (mk_sample ''img/a.jpg'' [box_a, box_b] 300)) \<and>
   one_hot_vec 2 [[0, 1, 0, - (1 / 20), 0, 0, 0], [1, 0, 0, - (13 / 20), - (1 / 2), 0, 0]]"
proof -
  let ?S = "mk_sample ''img/a.jpg'' [box_a, box_b] 300"
  have h: "\<forall>b \<in> set (boxes ?S). 0 \<le> labelid b \<and> labelid b \<le> int 2"
    by (simp add: concrete_defs)
  have e: "encode_sample U0 anchors0 2 ?S
             = Inr [[0, 1, 0, - (1 / 20), 0, 0, 0], [1, 0, 0, - (13 / 20), - (1 / 2), 0, 0]]"
    by (simp add: concrete_defs eval_nat_numeral)
  from one_hot_at_every_step [OF h, of U0 anchors0] e
  have "\<forall>x \<in> set (encode_states U0 anchors0 2 ?S). one_hot_vec 2 x"
    and "[[0, 1, 0, - (1 / 20), 0, 0, 0], [1, 0, 0, - (13 / 20), - (1 / 2), 0, 0]]
           = last (encode_states U0 anchors0 2 ?S)"
    and "one_hot_vec 2 [[0, 1, 0, - (1 / 20), 0, 0, 0], [1, 0, 0, - (13 / 20), - (1 / 2), 0, 0]]"
    by blast+
  with h e show ?thesis
    by (simp only: list_all_iff)
qed


section \<open>Rows that no match names\<close>

lemma process_overlap_other_rows:
  assumes "process_overlap U ov b a m nc w = Inr (m', w')"
  shows "length w' = length w \<and> (\<forall>j. j \<noteq> idx ov \<longrightarrow> w' ! j = w ! j)"
  using assms
  by (auto simp: process_overlap_def Let_def split: if_splits sum.splits)

text \<open>
  C5. The initial vector has the background row in every position, a call of
  \<open>process_overlap\<close> changes no row other than the one of the matched anchor, and so an
  anchor that is in no box's good list and is no box's best anchor still has the
  background row, with zero offsets, in the vector that the encoding returns and
  \<open>compute_gt\<close> saves.
\<close>

theorem unmatched_anchor_stays_background:
  assumes enc: "encode_sample U as nc s = Inr v"
    and nb: "\<forall>b \<in> set (boxes s). idx (best (box_overlap U as b)) \<noteq> i"
    and ng: "\<forall>b \<in> set (boxes s). \<forall>ov \<in> set (good (box_overlap U as b)). idx ov \<noteq> i"
    and i: "i < length as"
  shows "init_vec (length as) nc = replicate (length as) (background_row nc) \<and>
         (\<forall>ov b a m w m' w' j. process_overlap U ov b a m nc w = Inr (m', w') \<and> j \<noteq> idx ov
            \<longrightarrow> w' ! j = w ! j) \<and>
         length v = length as \<and> v ! i = background_row nc"
proof -
  from enc obtain m1 v1 m2 where
    r1: "run_entries U as nc (good_entries (box_overlap U as) (boxes s))
           (Map.empty, init_vec (length as) nc) = Inr (m1, v1)"
    and r2: "run_entries U as nc (best_entries (box_overlap U as) (boxes s))
           (Map.empty, v1) = Inr (m2, v)"
    by (auto simp: encode_sample_run split: sum.splits)
  from run_entries_shape [OF r1 vec_shape_init]
  have s1: "vec_shape nc v1" and l1: "length v1 = length as" by simp_all
  have g: "\<forall>e \<in> set (good_entries (box_overlap U as) (boxes s)). idx (fst e) \<noteq> i"
    using ng by (auto simp: good_entries_def)
  have b: "\<forall>e \<in> set (best_entries (box_overlap U as) (boxes s)). idx (fst e) \<noteq> i"
    using nb by (auto simp: best_entries_def)
  from run_entries_frame [OF r1 vec_shape_init g]
  have "v1 ! i = init_vec (length as) nc ! i" by simp
  moreover from run_entries_frame [OF r2 s1 b] have "v ! i = v1 ! i" by simp
  moreover have "init_vec (length as) nc ! i = background_row nc"
    using i by (simp add: init_vec_background)
  ultimately have row: "v ! i = background_row nc" by simp
  from run_entries_shape [OF r2 s1] l1 have len: "length v = length as" by simp
  from row len init_vec_background [of "length as" nc] process_overlap_other_rows [of U _ _ _ _ nc]
  show ?thesis by blast
qed

theorem unmatched_anchor_stays_background_witness:
  "encode_sample U0 anchors0 2 (mk_sample ''img/b.jpg'' [box_b, box_c] 300)
     = Inr [[0, 1, 0, - (1 / 20), 0, 0, 0], [0, 0, 1, 0, 0, 0, 0]] \<and>
   list_all (\<lambda>b. idx (best (box_overlap U0 anchors0 b)) \<noteq> 1 \<and>
                 list_all (\<lambda>ov. idx ov \<noteq> 1) (good (box_overlap U0 anchors0 b)))
     (boxes (mk_sample ''img/b.jpg'' [box_b, box_c] 300)) \<and>
   (1::nat) < length anchors0 \<and>
   length [[0, 1, 0, - (1 / 20), 0, 0, 0], [0, 0, 1, 0, 0, 0, 0 :: rat]] = length anchors0 \<and>
   [[0, 1, 0, - (1 / 20), 0, 0, 0], [0, 0, 1, 0, 0, 0, 0]] ! 1 = background_row 2"
proof -
  let ?S = "mk_sample ''img/b.jpg'' [box_b, box_c] 300"
  let ?V = "[[0, 1, 0, - (1 / 20), 0, 0, 0], [0, 0, 1, 0, 0, 0, 0 :: rat]]"
  have e: "encode_sample U0 anchors0 2 ?S = Inr ?V"
    by (simp add: concrete_defs eval_nat_numeral)
  have nb: "\<forall>b \<in> set (boxes ?S). idx (best (box_overlap U0 anchors0 b)) \<noteq> 1"
    by (simp add: concrete_defs)
  have ng: "\<forall>b \<in> set (boxes ?S). \<forall>ov \<in> set (good (box_overlap U0 anchors0 b)). idx ov \<noteq> 1"
    by (simp add: concrete_defs)
  have i: "(1::nat) < length anchors0"
    by (simp add: anchors0_def)
  from unmatched_anchor_stays_background [OF e nb ng i]
  have "length ?V = length anchors0" and "?V ! 1 = background_row 2"
    by blast+
  with e nb ng i show ?thesis
    unfolding list_all_iff by blast
qed


section \<open>Files and manifest of compute_gt\<close>

text \<open>The file table after one save per sample, in the order of the samples.\<close>

lemma gt_loop_result:
  "gt_loop U rd as nc ss (w, sl) = Inr (w', sl') \<Longrightarrow>
     sl' = sl @ map (\<lambda>s. (s, gt_fn rd s)) ss \<and>
     dirs w' = dirs w \<and>
     files w' = fold (\<lambda>s f. f(gt_fn rd s \<mapsto> Npy (projr (encode_sample U as nc s)))) ss
                  (files w)"
proof (induction ss arbitrary: w sl)
  case Nil
  then show ?case by simp
next
  case (Cons s ss)
  from Cons.prems obtain v where
    enc: "encode_sample U as nc s = Inr v"
    and rest: "gt_loop U rd as nc ss
                 (write_file (gt_fn rd s) (Npy v) w, sl @ [(s, gt_fn rd s)]) = Inr (w', sl')"
    by (auto split: sum.splits)
  from Cons.IH [OF rest]
  have a: "sl' = (sl @ [(s, gt_fn rd s)]) @ map (\<lambda>s. (s, gt_fn rd s)) ss"
    and b: "dirs w' = dirs (write_file (gt_fn rd s) (Npy v) w)"
    and c: "files w' = fold (\<lambda>s f. f(gt_fn rd s \<mapsto> Npy (projr (encode_sample U as nc s)))) ss
                  (files (write_file (gt_fn rd s) (Npy v) w))"
    by blast+
  have d: "files (write_file (gt_fn rd s) (Npy v) w)
             = (files w)(gt_fn rd s \<mapsto> Npy (projr (encode_sample U as nc s)))"
    by (simp add: write_file_def enc)
  have e: "dirs (write_file (gt_fn rd s) (Npy v) w) = dirs w"
    by (simp add: write_file_def)
  show ?case
    unfolding a b c d e
    by (simp only: fold_Cons o_apply list.map append_assoc append_Cons append_Nil simp_thms)
qed

lemma fold_files_other:
  "p \<notin> g ` set ss \<Longrightarrow> fold (\<lambda>s f. f(g s \<mapsto> h s)) ss f0 p = f0 p"
  by (induction ss arbitrary: f0) auto

lemma fold_files_last:
  "\<forall>y \<in> set ys. g y \<noteq> g s
     \<Longrightarrow> fold (\<lambda>s f. f(g s \<mapsto> h s)) (xs @ s # ys) f0 (g s) = Some (h s)"
proof -
  assume "\<forall>y \<in> set ys. g y \<noteq> g s"
  then have "g s \<notin> g ` set ys" by auto
  then show ?thesis by (simp add: fold_files_other)
qed

lemma gt_fn_not_manifest: "gt_fn rd s \<noteq> manifest_path dd name"
proof
  assume "gt_fn rd s = manifest_path dd name"
  then have "last (gt_fn rd s) = last (manifest_path dd name)" by simp
  then show False by (simp add: gt_fn_def manifest_path_def)
qed

lemmas path_defs = gt_fn_def gt_result_dir_def manifest_path_def strip_def is_space_def
  basename_def mk_sample_def

section \<open>Samples without boxes, samples with equal basenames\<close>

lemma encode_sample_no_boxes:
  "boxes s = [] \<Longrightarrow> encode_sample U as nc s = Inr (replicate (length as) (background_row nc))"
  by (simp add: encode_sample_def init_vec_background)

text \<open>
  C9. A sample without boxes is not skipped: its encoding returns the vector whose rows
  are all the background row with zero offsets, the loop saves that vector at the
  sample's path and appends the sample with this path to the sample list.
\<close>

theorem empty_sample_is_saved:
  assumes "boxes s = []"
  shows "encode_sample U as nc s = Inr (replicate (length as) (background_row nc)) \<and>
         gt_loop U rd as nc (s # ss) (w, sl) =
           gt_loop U rd as nc ss
             (write_file (gt_fn rd s) (Npy (replicate (length as) (background_row nc))) w,
              sl @ [(s, gt_fn rd s)]) \<and>
         compute_gt U dd [s] as nc name w =
           Inr (write_file (manifest_path dd name)
                  (SampleList [(s, gt_fn (gt_result_dir dd name) s)])
                  (write_file (gt_fn (gt_result_dir dd name) s)
                     (Npy (replicate (length as) (background_row nc)))
                     (makedirs_if_missing (gt_result_dir dd name) w)))"
  using encode_sample_no_boxes [OF assms, of U as nc]
  by (simp add: compute_gt_def Let_def)

theorem empty_sample_is_saved_witness:
  "boxes (mk_sample ''imgs/b.jpg'' [] 500) = [] \<and>
   encode_sample U0 anchors0 2 (mk_sample ''imgs/b.jpg'' [] 500)
     = Inr (replicate (length anchors0) (background_row 2)) \<and>
   compute_gt U0 ''data'' [mk_sample ''imgs/b.jpg'' [] 500] anchors0 2 ''train''
       \<lparr>dirs = {}, files = Map.empty\<rparr> =
     Inr (write_file (manifest_path ''data'' ''train'')
            (SampleList [(mk_sample ''imgs/b.jpg'' [] 500,
                          gt_fn (gt_result_dir ''data'' ''train'') (mk_sample ''imgs/b.jpg'' [] 500))])
            (write_file (gt_fn (gt_result_dir ''data'' ''train'') (mk_sample ''imgs/b.jpg'' [] 500))
               (Npy (replicate (length anchors0) (background_row 2)))
               (makedirs_if_missing (gt_result_dir ''data'' ''train'')
                  \<lparr>dirs = {}, files = Map.empty\<rparr>))) \<and>
   gt_fn (gt_result_dir ''data'' ''train'') (mk_sample ''imgs/b.jpg'' [] 500)
     = ''data/ground_truth/train/b.jpg.npy'' \<and>
   replicate (length anchors0) (background_row 2)
     = [[0, 0, 1, 0, 0, 0, 0], [0, 0, 1, 0, 0, 0, 0]]"
proof -
  have h: "boxes (mk_sample ''imgs/b.jpg'' [] 500) = []"
    by (simp add: mk_sample_def)
  have p: "gt_fn (gt_result_dir ''data'' ''train'') (mk_sample ''imgs/b.jpg'' [] 500)
             = ''data/ground_truth/train/b.jpg.npy''"
    by (simp add: path_defs)
  have v: "replicate (length anchors0) (background_row 2)
             = [[0, 0, 1, 0, 0, 0, 0], [0, 0, 1, 0, 0, 0, 0]]"
    by (simp add: anchors0_def background_row_def eval_nat_numeral)
  from empty_sample_is_saved [OF h, of U0 anchors0 2 _ _ "\<lparr>dirs = {}, files = Map.empty\<rparr>" _ "''data''" "''train''"] h p v
  show ?thesis by blast
qed


lemma gt_fn_eq_iff:
  "gt_fn rd s1 = gt_fn rd s2 \<longleftrightarrow> basename (filename s1) = basename (filename s2)"
  by (simp add: gt_fn_def)

lemma compute_gt_files:
  assumes "compute_gt U dd samples as nc name w = Inr w'"
  shows "files w' =
           (fold (\<lambda>s f. f(gt_fn (gt_result_dir dd name) s
                            \<mapsto> Npy (projr (encode_sample U as nc s)))) samples (files w))
             (manifest_path dd name
                \<mapsto> SampleList (map (\<lambda>s. (s, gt_fn (gt_result_dir dd name) s)) samples))"
proof -
  let ?rd = "gt_result_dir dd name"
  from assms obtain w2 sl where
    loop: "gt_loop U ?rd as nc samples (makedirs_if_missing ?rd w, []) = Inr (w2, sl)"
    and w': "w' = write_file (manifest_path dd name) (SampleList sl) w2"
    by (auto simp: compute_gt_def Let_def split: sum.splits)
  have fw: "files (makedirs_if_missing ?rd w) = files w"
    by (simp add: makedirs_if_missing_def)
  from gt_loop_result [OF loop] fw
  have "sl = map (\<lambda>s. (s, gt_fn ?rd s)) samples"
    and "files w2 = fold (\<lambda>s f. f(gt_fn ?rd s \<mapsto> Npy (projr (encode_sample U as nc s))))
                      samples (files w)"
    by simp_all
  then show ?thesis
    by (simp add: w' write_file_def)
qed

text \<open>
  C10. The path of a sample's vector is built from the basename of its file name only:
  two samples have the same path exactly when their basenames are equal. Of two such
  samples in one split, the first one's vector is in the file after its save, the vector
  of the later one is what the file holds at the end (when no sample after it has that
  basename again), and the manifest has an entry with this path for each of them.
\<close>

theorem equal_basenames_share_path:
  "(gt_fn rd s1 = gt_fn rd s2 \<longleftrightarrow> basename (filename s1) = basename (filename s2)) \<and>
   (gt_loop U rd as nc (pre @ [s1]) (w0, sl0) = Inr (wa, sla)
      \<longrightarrow> files wa (gt_fn rd s1) = Some (Npy (projr (encode_sample U as nc s1)))) \<and>
   (compute_gt U dd (pre @ s1 # mid @ s2 # post) as nc name w = Inr w'
      \<and> basename (filename s1) = basename (filename s2)
      \<and> (\<forall>s \<in> set post. basename (filename s) \<noteq> basename (filename s2))
      \<longrightarrow> gt_fn (gt_result_dir dd name) s1 = gt_fn (gt_result_dir dd name) s2
        \<and> files w' (gt_fn (gt_result_dir dd name) s1)
            = Some (Npy (projr (encode_sample U as nc s2)))
        \<and> files w' (manifest_path dd name) =
            Some (SampleList
              (map (\<lambda>s. (s, gt_fn (gt_result_dir dd name) s)) pre @
               (s1, gt_fn (gt_result_dir dd name) s2) #
               map (\<lambda>s. (s, gt_fn (gt_result_dir dd name) s)) mid @
               (s2, gt_fn (gt_result_dir dd name) s2) #
               map (\<lambda>s. (s, gt_fn (gt_result_dir dd name) s)) post)))"
proof (intro conjI impI)
  show "gt_fn rd s1 = gt_fn rd s2 \<longleftrightarrow> basename (filename s1) = basename (filename s2)"
    by (rule gt_fn_eq_iff)
next
  assume "gt_loop U rd as nc (pre @ [s1]) (w0, sl0) = Inr (wa, sla)"
  from gt_loop_result [OF this]
  have "files wa = fold (\<lambda>s f. f(gt_fn rd s \<mapsto> Npy (projr (encode_sample U as nc s))))
                     (pre @ [s1]) (files w0)"
    by blast
  then show "files wa (gt_fn rd s1) = Some (Npy (projr (encode_sample U as nc s1)))"
    by simp
next
  let ?rd = "gt_result_dir dd name"
  assume h: "compute_gt U dd (pre @ s1 # mid @ s2 # post) as nc name w = Inr w'
      \<and> basename (filename s1) = basename (filename s2)
      \<and> (\<forall>s \<in> set post. basename (filename s) \<noteq> basename (filename s2))"
  then have run: "compute_gt U dd (pre @ s1 # mid @ s2 # post) as nc name w = Inr w'"
    and eq: "gt_fn ?rd s1 = gt_fn ?rd s2"
    and post: "\<forall>y \<in> set post. gt_fn ?rd y \<noteq> gt_fn ?rd s2"
    by (simp_all add: gt_fn_eq_iff)
  note all = compute_gt_files [OF run]
  show "gt_fn ?rd s1 = gt_fn ?rd s2" by (rule eq)
  have "fold (\<lambda>s f. f(gt_fn ?rd s \<mapsto> Npy (projr (encode_sample U as nc s))))
          ((pre @ s1 # mid) @ s2 # post) (files w) (gt_fn ?rd s2)
        = Some (Npy (projr (encode_sample U as nc s2)))"
    using post by (rule fold_files_last)
  then show "files w' (gt_fn ?rd s1) = Some (Npy (projr (encode_sample U as nc s2)))"
    using gt_fn_not_manifest [of ?rd s2 dd name] by (simp add: all eq)
  show "files w' (manifest_path dd name) =
      Some (SampleList
        (map (\<lambda>s. (s, gt_fn ?rd s)) pre @ (s1, gt_fn ?rd s2) #
         map (\<lambda>s. (s, gt_fn ?rd s)) mid @ (s2, gt_fn ?rd s2) #
         map (\<lambda>s. (s, gt_fn ?rd s)) post))"
    by (simp add: all eq)
qed

theorem equal_basenames_share_path_witness:
  "basename (filename (mk_sample ''a/img.jpg'' [box_b] 300))
     = basename (filename (mk_sample ''b/img.jpg'' [box_d] 300)) \<and>
   filename (mk_sample ''a/img.jpg'' [box_b] 300)
     \<noteq> filename (mk_sample ''b/img.jpg'' [box_d] 300) \<and>
   gt_fn (gt_result_dir ''data'' ''train'') (mk_sample ''a/img.jpg'' [box_b] 300)
     = ''data/ground_truth/train/img.jpg.npy'' \<and>
   gt_fn (gt_result_dir ''data'' ''train'') (mk_sample ''b/img.jpg'' [box_d] 300)
     = ''data/ground_truth/train/img.jpg.npy'' \<and>
   encode_sample U0 anchors0 2 (mk_sample ''a/img.jpg'' [box_b] 300)
     = Inr [[0, 1, 0, - (1 / 20), 0, 0, 0], [0, 0, 1, 0, 0, 0, 0]] \<and>
   (\<exists>w'. compute_gt U0 ''data''
           [mk_sample ''a/img.jpg'' [box_b] 300, mk_sample ''b/img.jpg'' [box_d] 300]
           anchors0 2 ''train'' \<lparr>dirs = {}, files = Map.empty\<rparr> = Inr w' \<and>
         files w' ''data/ground_truth/train/img.jpg.npy''
           = Some (Npy [[0, 1, 0, 3 / 20, 0, 0, 0], [0, 0, 1, 0, 0, 0, 0]]) \<and>
         files w' (manifest_path ''data'' ''train'') =
           Some (SampleList
             [(mk_sample ''a/img.jpg'' [box_b] 300, ''data/ground_truth/train/img.jpg.npy''),
              (mk_sample ''b/img.jpg'' [box_d] 300, ''data/ground_truth/train/img.jpg.npy'')]))"
proof -
  let ?S1 = "mk_sample ''a/img.jpg'' [box_b] 300"
  let ?S2 = "mk_sample ''b/img.jpg'' [box_d] 300"
  let ?w = "\<lparr>dirs = {}, files = Map.empty\<rparr>"
  let ?rd = "gt_result_dir ''data'' ''train''"
  have b: "basename (filename ?S1) = basename (filename ?S2)"
    by (simp add: path_defs)
  have d: "filename ?S1 \<noteq> filename ?S2"
    by (simp add: mk_sample_def)
  have p1: "gt_fn ?rd ?S1 = ''data/ground_truth/train/img.jpg.npy''"
    by (simp add: path_defs)
  have p2: "gt_fn ?rd ?S2 = ''data/ground_truth/train/img.jpg.npy''"
    by (simp add: path_defs)
  have e1: "encode_sample U0 anchors0 2 ?S1
              = Inr [[0, 1, 0, - (1 / 20), 0, 0, 0], [0, 0, 1, 0, 0, 0, 0]]"
    by (simp add: concrete_defs eval_nat_numeral)
  have e2: "encode_sample U0 anchors0 2 ?S2
              = Inr [[0, 1, 0, 3 / 20, 0, 0, 0], [0, 0, 1, 0, 0, 0, 0]]"
    by (simp add: concrete_defs eval_nat_numeral)
  have "\<exists>w'. compute_gt U0 ''data'' [?S1, ?S2] anchors0 2 ''train'' ?w = Inr w'"
    by (simp add: compute_gt_def Let_def e1 e2)
  then obtain w' where
    r: "compute_gt U0 ''data'' ([] @ ?S1 # [] @ ?S2 # []) anchors0 2 ''train'' ?w = Inr w'"
    by auto
  have post: "\<forall>s \<in> set []. basename (filename s) \<noteq> basename (filename ?S2)"
    by simp
  from equal_basenames_share_path
    [of ?rd ?S1 ?S2 U0 anchors0 2 "[]" _ _ _ _ "''data''" "[]" "[]" "''train''" ?w w'] r b post
  have "files w' (gt_fn ?rd ?S1) = Some (Npy (projr (encode_sample U0 anchors0 2 ?S2)))"
    and "files w' (manifest_path ''data'' ''train'') =
           Some (SampleList
             (map (\<lambda>s. (s, gt_fn ?rd s)) [] @ (?S1, gt_fn ?rd ?S2) #
              map (\<lambda>s. (s, gt_fn ?rd s)) [] @ (?S2, gt_fn ?rd ?S2) #
              map (\<lambda>s. (s, gt_fn ?rd s)) []))"
    by blast+
  then have "files w' ''data/ground_truth/train/img.jpg.npy''
               = Some (Npy [[0, 1, 0, 3 / 20, 0, 0, 0], [0, 0, 1, 0, 0, 0, 0]])"
    and "files w' (manifest_path ''data'' ''train'') =
           Some (SampleList [(?S1, ''data/ground_truth/train/img.jpg.npy''),
                             (?S2, ''data/ground_truth/train/img.jpg.npy'')])"
    by (simp_all add: p1 p2 e2)
  with r b d p1 p2 e1 show ?thesis by auto
qed


section \<open>The exit code of main\<close>

text \<open>
  C7, as the code has it. \<open>main\<close> returns 1, with nothing further done, when the loading
  of the data source raises ImportError, AttributeError or RuntimeError, the classes its
  except clause names; an exception of another class raised by the loading leaves \<open>main\<close>
  uncaught; and when \<open>main\<close> returns after the source has loaded, it returns 0.
\<close>

theorem main_exit_code:
  "(load_data_source E (data_source A) (data_dir A) (validation_fraction A) = Inl e
      \<and> (e = ImportError \<or> e = AttributeError \<or> e = RuntimeError)
      \<longrightarrow> main E A w = Inr (1, w)) \<and>
   (load_data_source E (data_source A) (data_dir A) (validation_fraction A) = Inl e
      \<and> e \<noteq> ImportError \<and> e \<noteq> AttributeError \<and> e \<noteq> RuntimeError
      \<longrightarrow> main E A w = Inl e) \<and>
   (main E A w = Inr (c, w')
      \<longrightarrow> (c = 0 \<and> (\<exists>src. load_data_source E (data_source A) (data_dir A)
                                (validation_fraction A) = Inr src)) \<or>
          (c = 1 \<and> w' = w \<and>
             (\<exists>x. load_data_source E (data_source A) (data_dir A)
                        (validation_fraction A) = Inl x \<and> caught x)))"
  by (auto simp: main_def caught_def split: sum.splits if_splits)

lemma encode_source0_train:
  "encode_sample U0 anchors0 2 (mk_sample ''imgs/a.jpg'' [box_b] 300)
     = Inr [[0, 1, 0, - (1 / 20), 0, 0, 0], [0, 0, 1, 0, 0, 0, 0]]"
  by (simp add: concrete_defs eval_nat_numeral)

lemma encode_source0_valid:
  "encode_sample U0 anchors0 2 (mk_sample ''imgs/b.jpg'' [] 500)
     = Inr [[0, 0, 1, 0, 0, 0, 0], [0, 0, 1, 0, 0, 0, 0]]"
  by (simp add: concrete_defs eval_nat_numeral)

theorem main_exit_code_witness:
  "main (env0 (Inl RuntimeError)) args0 world0 = Inr (1, world0) \<and>
   main (env0 (Inl OSError)) args0 world0 = Inl OSError \<and>
   (\<exists>w'. main (env0 (Inr source0)) args0 world0 = Inr (0, w'))"
proof -
  have l: "\<And>r. load_data_source (env0 r) (data_source args0) (data_dir args0)
                  (validation_fraction args0) = r"
    by (simp add: env0_def)
  from main_exit_code [of "env0 (Inl RuntimeError)" args0 RuntimeError world0] l
  have a: "main (env0 (Inl RuntimeError)) args0 world0 = Inr (1, world0)"
    by simp
  from main_exit_code [of "env0 (Inl OSError)" args0 OSError world0] l
  have b: "main (env0 (Inl OSError)) args0 world0 = Inl OSError"
    by simp
  have "\<exists>c w'. main (env0 (Inr source0)) args0 world0 = Inr (c, w')"
    by (simp add: main_def env0_def args0_def source0_def compute_gt_all_def compute_gt_def
          Let_def encode_source0_train encode_source0_valid)
  then obtain c w' where r: "main (env0 (Inr source0)) args0 world0 = Inr (c, w')"
    by blast
  from main_exit_code [of "env0 (Inr source0)" args0 _ world0 c w'] r l
  have "c = 0" by auto
  with r a b show ?thesis by blast
qed

text \<open>
  The loading raises an exception of a class that the except clause does not name:
  \<open>main\<close> does not return 1, the exception leaves it.
\<close>

theorem main_uncaught_load_failure_counterexample:
  "load_data_source (env0 (Inl OSError)) (data_source args0) (data_dir args0)
     (validation_fraction args0) = Inl OSError \<and>
   main (env0 (Inl OSError)) args0 world0 = Inl OSError \<and>
   main (env0 (Inl OSError)) args0 world0 \<noteq> Inr (1, world0)"
  by (simp add: main_def env0_def caught_def)


section \<open>The reference canvas\<close>

lemma process_overlap_location_only:
  "compute_location U' = compute_location U
     \<Longrightarrow> process_overlap U' ov b a m nc v = process_overlap U ov b a m nc v"
proof -
  assume h: "compute_location U' = compute_location U"
  show ?thesis
    unfolding process_overlap_def h by (rule refl)
qed

lemma run_entries_location_only:
  "compute_location U' = compute_location U
     \<Longrightarrow> run_entries U' as nc es st = run_entries U as nc es st"
proof (induction es arbitrary: st)
  case Nil
  show ?case by simp
next
  case (Cons e es)
  have "process_overlap U' (fst e) (snd e) (as ! idx (fst e)) (fst st) nc (snd st)
          = process_overlap U (fst e) (snd e) (as ! idx (fst e)) (fst st) nc (snd st)"
    using Cons.prems by (rule process_overlap_location_only)
  with Cons.IH [OF Cons.prems] show ?case
    by (simp split: sum.splits)
qed

lemma good_entries_cong:
  "\<forall>b \<in> set bs. f b = g b \<Longrightarrow> good_entries f bs = good_entries g bs"
  by (induction bs) (simp_all add: good_entries_def)

lemma best_entries_cong:
  "\<forall>b \<in> set bs. f b = g b \<Longrightarrow> best_entries f bs = best_entries g bs"
  by (simp add: best_entries_def)

text \<open>
  C8. The vector of a sample is the result of the two passes run on the overlaps computed
  from the box arrays and the anchor array on the fixed canvas of 1000 by 1000: any
  dictionary holding these overlaps for the sample's boxes gives the encoding. The
  conversion functions are used at this size only, so an instance of them that differs
  at other sizes gives the same vector. The image size of the sample is not read: two
  samples with the same boxes get the same overlaps and the same vector.
\<close>

theorem encoding_uses_reference_canvas:
  "((\<forall>b \<in> set (boxes s).
       d b = Some (compute_overlap U (box2array U b \<lparr>width = 1000, height = 1000\<rparr>)
                     (anchors2array U as \<lparr>width = 1000, height = 1000\<rparr>) (1 / 2)))
      \<longrightarrow> encode_sample U as nc s =
            (case first_pass U as nc d (boxes s) (Map.empty, init_vec (length as) nc) of
               Inl e \<Rightarrow> Inl e
             | Inr st1 \<Rightarrow>
                 (case second_pass U as nc d (boxes s) (Map.empty, snd st1) of
                    Inl e \<Rightarrow> Inl e
                  | Inr st2 \<Rightarrow> Inr (snd st2)))) \<and>
   (compute_overlap U' = compute_overlap U \<and> compute_location U' = compute_location U
      \<and> anchors2array U' as \<lparr>width = 1000, height = 1000\<rparr>
            = anchors2array U as \<lparr>width = 1000, height = 1000\<rparr>
      \<and> (\<forall>b \<in> set (boxes s). box2array U' b \<lparr>width = 1000, height = 1000\<rparr>
                                  = box2array U b \<lparr>width = 1000, height = 1000\<rparr>)
      \<longrightarrow> encode_sample U' as nc s = encode_sample U as nc s) \<and>
   (boxes s = boxes s'
      \<longrightarrow> sample_overlaps U as (boxes s) Map.empty = sample_overlaps U as (boxes s') Map.empty
          \<and> encode_sample U as nc s = encode_sample U as nc s')"
proof (intro conjI impI)
  assume "\<forall>b \<in> set (boxes s).
       d b = Some (compute_overlap U (box2array U b \<lparr>width = 1000, height = 1000\<rparr>)
                     (anchors2array U as \<lparr>width = 1000, height = 1000\<rparr>) (1 / 2))"
  then have d: "\<forall>b \<in> set (boxes s). d b = Some (box_overlap U as b)"
    by (simp add: box_overlap_def ref_size_def)
  show "encode_sample U as nc s =
            (case first_pass U as nc d (boxes s) (Map.empty, init_vec (length as) nc) of
               Inl e \<Rightarrow> Inl e
             | Inr st1 \<Rightarrow>
                 (case second_pass U as nc d (boxes s) (Map.empty, snd st1) of
                    Inl e \<Rightarrow> Inl e
                  | Inr st2 \<Rightarrow> Inr (snd st2)))"
    by (simp only: encode_sample_run first_pass_run [OF d] second_pass_run [OF d])
next
  assume h: "compute_overlap U' = compute_overlap U \<and> compute_location U' = compute_location U
      \<and> anchors2array U' as \<lparr>width = 1000, height = 1000\<rparr>
            = anchors2array U as \<lparr>width = 1000, height = 1000\<rparr>
      \<and> (\<forall>b \<in> set (boxes s). box2array U' b \<lparr>width = 1000, height = 1000\<rparr>
                                  = box2array U b \<lparr>width = 1000, height = 1000\<rparr>)"
  then have loc: "compute_location U' = compute_location U" by simp
  from h have ov: "\<forall>b \<in> set (boxes s). box_overlap U' as b = box_overlap U as b"
    by (simp add: box_overlap_def ref_size_def)
  show "encode_sample U' as nc s = encode_sample U as nc s"
    by (simp only: encode_sample_run run_entries_location_only [OF loc]
          good_entries_cong [OF ov] best_entries_cong [OF ov])
next
  assume "boxes s = boxes s'"
  then show "sample_overlaps U as (boxes s) Map.empty = sample_overlaps U as (boxes s') Map.empty"
    by simp
next
  assume "boxes s = boxes s'"
  then show "encode_sample U as nc s = encode_sample U as nc s'"
    unfolding encode_sample_def by (simp only:)
qed

theorem encoding_uses_reference_canvas_witness:
  "box2array U1 box_a \<lparr>width = 300, height = 300\<rparr>
     \<noteq> box2array U0 box_a \<lparr>width = 300, height = 300\<rparr> \<and>
   imgsize (mk_sample ''img/a.jpg'' [box_a, box_b] 300)
     \<noteq> imgsize (mk_sample ''img/z.png'' [box_a, box_b] 512) \<and>
   encode_sample U0 anchors0 2 (mk_sample ''img/a.jpg'' [box_a, box_b] 300)
     = Inr [[0, 1, 0, - (1 / 20), 0, 0, 0], [1, 0, 0, - (13 / 20), - (1 / 2), 0, 0]] \<and>
   encode_sample U0 anchors0 2 (mk_sample ''img/a.jpg'' [box_a, box_b] 300) =
     (case first_pass U0 anchors0 2
             (\<lambda>b. Some (compute_overlap U0 (box2array U0 b \<lparr>width = 1000, height = 1000\<rparr>)
                           (anchors2array U0 anchors0 \<lparr>width = 1000, height = 1000\<rparr>) (1 / 2)))
             (boxes (mk_sample ''img/a.jpg'' [box_a, box_b] 300))
             (Map.empty, init_vec (length anchors0) 2) of
        Inl e \<Rightarrow> Inl e
      | Inr st1 \<Rightarrow>
          (case second_pass U0 anchors0 2
                  (\<lambda>b. Some (compute_overlap U0 (box2array U0 b \<lparr>width = 1000, height = 1000\<rparr>)
                                (anchors2array U0 anchors0 \<lparr>width = 1000, height = 1000\<rparr>) (1 / 2)))
                  (boxes (mk_sample ''img/a.jpg'' [box_a, box_b] 300)) (Map.empty, snd st1) of
             Inl e \<Rightarrow> Inl e
           | Inr st2 \<Rightarrow> Inr (snd st2))) \<and>
   encode_sample U1 anchors0 2 (mk_sample ''img/a.jpg'' [box_a, box_b] 300)
     = encode_sample U0 anchors0 2 (mk_sample ''img/a.jpg'' [box_a, box_b] 300) \<and>
   encode_sample U0 anchors0 2 (mk_sample ''img/a.jpg'' [box_a, box_b] 300)
     = encode_sample U0 anchors0 2 (mk_sample ''img/z.png'' [box_a, box_b] 512)"
proof -
  let ?S = "mk_sample ''img/a.jpg'' [box_a, box_b] 300"
  let ?T = "mk_sample ''img/z.png'' [box_a, box_b] 512"
  let ?d = "\<lambda>b. Some (compute_overlap U0 (box2array U0 b \<lparr>width = 1000, height = 1000\<rparr>)
                         (anchors2array U0 anchors0 \<lparr>width = 1000, height = 1000\<rparr>) (1 / 2))"
  have off: "box2array U1 box_a \<lparr>width = 300, height = 300\<rparr>
               \<noteq> box2array U0 box_a \<lparr>width = 300, height = 300\<rparr>"
    by (simp add: U1_def U0_def ref_size_def geom_array_def)
  have sz: "imgsize ?S \<noteq> imgsize ?T" by (simp add: mk_sample_def)
  have e: "encode_sample U0 anchors0 2 ?S
             = Inr [[0, 1, 0, - (1 / 20), 0, 0, 0], [1, 0, 0, - (13 / 20), - (1 / 2), 0, 0]]"
    by (simp add: concrete_defs eval_nat_numeral)
  have h1: "\<forall>b \<in> set (boxes ?S). ?d b = ?d b" by simp
  have h2: "compute_overlap U1 = compute_overlap U0 \<and> compute_location U1 = compute_location U0
      \<and> anchors2array U1 anchors0 \<lparr>width = 1000, height = 1000\<rparr>
            = anchors2array U0 anchors0 \<lparr>width = 1000, height = 1000\<rparr>
      \<and> (\<forall>b \<in> set (boxes ?S). box2array U1 b \<lparr>width = 1000, height = 1000\<rparr>
                                  = box2array U0 b \<lparr>width = 1000, height = 1000\<rparr>)"
    by (simp add: U1_def ref_size_def)
  have h3: "boxes ?S = boxes ?T" by (simp add: mk_sample_def)
  note T = encoding_uses_reference_canvas [of ?S ?d U0 anchors0 2 U1 ?T]
  note c1 = T [THEN conjunct1, THEN mp, OF h1]
  note c2 = T [THEN conjunct2, THEN conjunct1, THEN mp, OF h2]
  note c3 = T [THEN conjunct2, THEN conjunct2, THEN mp, OF h3, THEN conjunct2]
  show ?thesis
    by (intro conjI) (rule off sz e c1 c2 c3)+
qed


section \<open>One file per sample\<close>

lemma gt_loop_encodes:
  "gt_loop U rd as nc ss st = Inr st' \<Longrightarrow> \<forall>s \<in> set ss. \<exists>v. encode_sample U as nc s = Inr v"
  by (induction ss arbitrary: st) (auto split: sum.splits)

lemma compute_gt_encodes:
  "compute_gt U dd samples as nc name w = Inr w'
     \<Longrightarrow> \<forall>s \<in> set samples. \<exists>v. encode_sample U as nc s = Inr v"
  by (auto simp: compute_gt_def Let_def split: sum.splits dest: gt_loop_encodes)

lemma fold_files_distinct:
  assumes "distinct (map g ss)" and "s \<in> set ss"
  shows "fold (\<lambda>s f. f(g s \<mapsto> h s)) ss f0 (g s) = Some (h s)"
proof -
  from assms(2) obtain xs ys where ss: "ss = xs @ s # ys"
    by (auto dest: split_list)
  with assms(1) have "g s \<notin> g ` set ys" by simp
  then have "\<forall>y \<in> set ys. g y \<noteq> g s" by (metis imageI)
  then show ?thesis
    unfolding ss by (rule fold_files_last)
qed

lemma gt_fn_distinct:
  assumes "distinct (map (\<lambda>s. basename (filename s)) ss)"
  shows "distinct (map (gt_fn rd) ss)"
proof -
  have "inj_on (gt_fn rd) (set ss)"
  proof (rule inj_onI)
    fix x y
    assume "x \<in> set ss" "y \<in> set ss" "gt_fn rd x = gt_fn rd y"
    then have "basename (filename x) = basename (filename y)"
      by (simp add: gt_fn_eq_iff)
    with assms \<open>x \<in> set ss\<close> \<open>y \<in> set ss\<close> show "x = y"
      by (auto simp: distinct_map dest: inj_onD)
  qed
  moreover from assms have "distinct ss" by (simp add: distinct_map)
  ultimately show ?thesis by (simp add: distinct_map)
qed

text \<open>
  C6, as the code has it. A run of \<open>compute_gt\<close> that returns has written the manifest at
  \<open>data_dir/split-samples.pkl\<close>: the samples in their order, each paired with the path
  \<open>data_dir/ground_truth/split/basename.npy\<close> its vector was saved to. When the basenames
  of the samples are pairwise distinct, these paths are pairwise distinct, there are as
  many of them as samples, the file at the path of each sample holds the vector of that
  sample, and no other file but the manifest is changed.
\<close>

theorem compute_gt_files_and_manifest:
  assumes run: "compute_gt U dd samples as nc name w = Inr w'"
  shows "files w' (manifest_path dd name) =
           Some (SampleList (map (\<lambda>s. (s, gt_fn (gt_result_dir dd name) s)) samples)) \<and>
         (\<forall>s \<in> set samples.
            gt_fn (gt_result_dir dd name) s =
              dd @ ''/ground_truth/'' @ strip name @ ''/'' @ basename (filename s) @ ''.npy'') \<and>
         (distinct (map (\<lambda>s. basename (filename s)) samples) \<longrightarrow>
            distinct (map (gt_fn (gt_result_dir dd name)) samples) \<and>
            card (gt_fn (gt_result_dir dd name) ` set samples) = length samples \<and>
            (\<forall>s \<in> set samples. \<exists>v.
               encode_sample U as nc s = Inr v \<and>
               files w' (gt_fn (gt_result_dir dd name) s) = Some (Npy v)) \<and>
            (\<forall>p. p \<notin> gt_fn (gt_result_dir dd name) ` set samples \<and> p \<noteq> manifest_path dd name
               \<longrightarrow> files w' p = files w p))"
proof -
  let ?rd = "gt_result_dir dd name"
  let ?h = "\<lambda>s. Npy (projr (encode_sample U as nc s))"
  note all = compute_gt_files [OF run]
  have man: "files w' (manifest_path dd name) =
      Some (SampleList (map (\<lambda>s. (s, gt_fn ?rd s)) samples))"
    by (subst all) (rule fun_upd_same)
  have paths: "\<forall>s \<in> set samples.
      gt_fn ?rd s = dd @ ''/ground_truth/'' @ strip name @ ''/'' @ basename (filename s) @ ''.npy''"
    by (simp add: gt_fn_def gt_result_dir_def)
  have cond: "distinct (map (gt_fn ?rd) samples) \<and>
      card (gt_fn ?rd ` set samples) = length samples \<and>
      (\<forall>s \<in> set samples. \<exists>v.
         encode_sample U as nc s = Inr v \<and> files w' (gt_fn ?rd s) = Some (Npy v)) \<and>
      (\<forall>p. p \<notin> gt_fn ?rd ` set samples \<and> p \<noteq> manifest_path dd name
         \<longrightarrow> files w' p = files w p)"
    if dist: "distinct (map (\<lambda>s. basename (filename s)) samples)"
  proof -
    from dist have d: "distinct (map (gt_fn ?rd) samples)" by (rule gt_fn_distinct)
    from distinct_card [OF d] have c: "card (gt_fn ?rd ` set samples) = length samples"
      by simp
    have own: "\<exists>v. encode_sample U as nc s = Inr v \<and> files w' (gt_fn ?rd s) = Some (Npy v)"
      if s: "s \<in> set samples" for s
    proof -
      from compute_gt_encodes [OF run] s obtain v where v: "encode_sample U as nc s = Inr v"
        by blast
      have "fold (\<lambda>s f. f(gt_fn ?rd s \<mapsto> ?h s)) samples (files w) (gt_fn ?rd s) = Some (?h s)"
        using d s by (rule fold_files_distinct)
      then have "files w' (gt_fn ?rd s) = Some (Npy v)"
        using gt_fn_not_manifest [of ?rd s dd name] by (simp add: all v)
      with v show ?thesis by blast
    qed
    have frame: "files w' p = files w p"
      if "p \<notin> gt_fn ?rd ` set samples \<and> p \<noteq> manifest_path dd name" for p
      using that by (simp add: all fold_files_other)
    from d c own frame show ?thesis by blast
  qed
  from man paths cond show ?thesis by blast
qed


theorem compute_gt_files_and_manifest_witness:
  "\<exists>w'. compute_gt U0 ''data''
           [mk_sample ''imgs/a.jpg'' [box_b] 300, mk_sample ''imgs/b.jpg'' [] 500]
           anchors0 2 ''train'' world0 = Inr w' \<and>
        files w' ''data/train-samples.pkl'' =
          Some (SampleList
            [(mk_sample ''imgs/a.jpg'' [box_b] 300, ''data/ground_truth/train/a.jpg.npy''),
             (mk_sample ''imgs/b.jpg'' [] 500, ''data/ground_truth/train/b.jpg.npy'')]) \<and>
        card (gt_fn (gt_result_dir ''data'' ''train'')
                ` set [mk_sample ''imgs/a.jpg'' [box_b] 300, mk_sample ''imgs/b.jpg'' [] 500]) = 2 \<and>
        files w' ''data/ground_truth/train/a.jpg.npy'' =
          Some (Npy [[0, 1, 0, - (1 / 20), 0, 0, 0], [0, 0, 1, 0, 0, 0, 0]]) \<and>
        files w' ''data/ground_truth/train/b.jpg.npy'' =
          Some (Npy [[0, 0, 1, 0, 0, 0, 0], [0, 0, 1, 0, 0, 0, 0]])"
proof -
  let ?S1 = "mk_sample ''imgs/a.jpg'' [box_b] 300"
  let ?S2 = "mk_sample ''imgs/b.jpg'' [] 500"
  let ?rd = "gt_result_dir ''data'' ''train''"
  have "\<exists>w'. compute_gt U0 ''data'' [?S1, ?S2] anchors0 2 ''train'' world0 = Inr w'"
    by (simp add: compute_gt_def Let_def encode_source0_train encode_source0_valid)
  then obtain w' where r: "compute_gt U0 ''data'' [?S1, ?S2] anchors0 2 ''train'' world0 = Inr w'"
    by blast
  have p1: "gt_fn ?rd ?S1 = ''data/ground_truth/train/a.jpg.npy''"
    by (simp add: path_defs)
  have p2: "gt_fn ?rd ?S2 = ''data/ground_truth/train/b.jpg.npy''"
    by (simp add: path_defs)
  have pm: "manifest_path ''data'' ''train'' = ''data/train-samples.pkl''"
    by (simp add: path_defs)
  have dist: "distinct (map (\<lambda>s. basename (filename s)) [?S1, ?S2])"
    by (simp add: path_defs)
  note T = compute_gt_files_and_manifest [OF r]
  from T have m: "files w' (manifest_path ''data'' ''train'') =
      Some (SampleList (map (\<lambda>s. (s, gt_fn ?rd s)) [?S1, ?S2]))"
    by (rule conjunct1)
  from T dist have c: "card (gt_fn ?rd ` set [?S1, ?S2]) = length [?S1, ?S2]"
    and own: "\<forall>s \<in> set [?S1, ?S2]. \<exists>v.
       encode_sample U0 anchors0 2 s = Inr v \<and> files w' (gt_fn ?rd s) = Some (Npy v)"
    by blast+
  from own have "\<exists>v. encode_sample U0 anchors0 2 ?S1 = Inr v \<and> files w' (gt_fn ?rd ?S1) = Some (Npy v)"
    and "\<exists>v. encode_sample U0 anchors0 2 ?S2 = Inr v \<and> files w' (gt_fn ?rd ?S2) = Some (Npy v)"
    by simp_all
  then have f1: "files w' ''data/ground_truth/train/a.jpg.npy'' =
      Some (Npy [[0, 1, 0, - (1 / 20), 0, 0, 0], [0, 0, 1, 0, 0, 0, 0]])"
    and f2: "files w' ''data/ground_truth/train/b.jpg.npy'' =
      Some (Npy [[0, 0, 1, 0, 0, 0, 0], [0, 0, 1, 0, 0, 0, 0]])"
    by (simp_all add: p1 p2 encode_source0_train encode_source0_valid)
  from m have m': "files w' ''data/train-samples.pkl'' =
      Some (SampleList [(?S1, ''data/ground_truth/train/a.jpg.npy''),
                        (?S2, ''data/ground_truth/train/b.jpg.npy'')])"
    by (simp add: p1 p2 pm)
  from c have c': "card (gt_fn ?rd ` set [?S1, ?S2]) = 2" by simp
  from r m' c' f1 f2 show ?thesis by blast
qed

text \<open>
  Two samples of one split whose file names have the same basename: both get the same
  path, and after the run the file at the path of the first sample holds the vector of
  the second one, which is not the vector of the first.
\<close>

theorem one_file_for_two_samples_counterexample:
  "gt_fn (gt_result_dir ''data'' ''train'') (mk_sample ''set1/0001.jpg'' [box_a] 300)
     = gt_fn (gt_result_dir ''data'' ''train'') (mk_sample ''set2/0001.jpg'' [] 300) \<and>
   encode_sample U0 anchors0 2 (mk_sample ''set1/0001.jpg'' [box_a] 300)
     = Inr [[1, 0, 0, - (3 / 20), 0, 0, 0], [1, 0, 0, - (13 / 20), - (1 / 2), 0, 0]] \<and>
   saved_at
     (compute_gt U0 ''data''
        [mk_sample ''set1/0001.jpg'' [box_a] 300, mk_sample ''set2/0001.jpg'' [] 300]
        anchors0 2 ''train'' world0)
     (gt_fn (gt_result_dir ''data'' ''train'') (mk_sample ''set1/0001.jpg'' [box_a] 300))
     = Some (Npy [[0, 0, 1, 0, 0, 0, 0], [0, 0, 1, 0, 0, 0, 0]]) \<and>
   saved_at
     (compute_gt U0 ''data''
        [mk_sample ''set1/0001.jpg'' [box_a] 300, mk_sample ''set2/0001.jpg'' [] 300]
        anchors0 2 ''train'' world0)
     (manifest_path ''data'' ''train'')
     = Some (SampleList
         [(mk_sample ''set1/0001.jpg'' [box_a] 300, ''data/ground_truth/train/0001.jpg.npy''),
          (mk_sample ''set2/0001.jpg'' [] 300, ''data/ground_truth/train/0001.jpg.npy'')])"
proof -
  let ?S1 = "mk_sample ''set1/0001.jpg'' [box_a] 300"
  let ?S2 = "mk_sample ''set2/0001.jpg'' [] 300"
  have e1: "encode_sample U0 anchors0 2 ?S1
              = Inr [[1, 0, 0, - (3 / 20), 0, 0, 0], [1, 0, 0, - (13 / 20), - (1 / 2), 0, 0]]"
    by (simp add: concrete_defs eval_nat_numeral)
  have e2: "encode_sample U0 anchors0 2 ?S2
              = Inr [[0, 0, 1, 0, 0, 0, 0], [0, 0, 1, 0, 0, 0, 0]]"
    by (simp add: concrete_defs eval_nat_numeral)
  have p1: "gt_fn (gt_result_dir ''data'' ''train'') ?S1 = ''data/ground_truth/train/0001.jpg.npy''"
    by (simp add: path_defs)
  have p2: "gt_fn (gt_result_dir ''data'' ''train'') ?S2 = ''data/ground_truth/train/0001.jpg.npy''"
    by (simp add: path_defs)
  have pm: "manifest_path ''data'' ''train'' = ''data/train-samples.pkl''"
    by (simp add: path_defs)
  show ?thesis
    by (simp add: e1 e2 p1 p2 pm saved_at_def compute_gt_def Let_def write_file_def)
qed

end
